(* ===== verification/Prelude.thy ===== *)
theory Prelude
  imports Complex_Main "HOL-Library.Multiset"
begin

text \<open>
  Shared vocabulary of the development: the error values of the numerical core, the
  tensor primitives of \<open>src/gpytorch/utils/pivoted_cholesky.py\<close> on one batch element
  (\<open>torch.gather\<close>, \<open>Tensor.scatter_\<close>, \<open>torch.max\<close> with its index, \<open>torch.norm(_, 1)\<close>),
  and vectors and matrices as lists of reals (a matrix is the list of its rows, as a
  row-major tensor is). Each primitive comes with its index-level lemmas, collected in
  \<open>mat_simps\<close>, which carry the component proofs.
\<close>

named_theorems mat_simps "index-level rules for the list vectors and matrices"

type_synonym vec = "real list"
type_synonym mat = "real list list"

text \<open>
  Errors. The Python code raises on shape errors (a negative size given to
  \<open>torch.zeros\<close>), on reductions over an empty dimension (\<open>torch.max\<close>), and produces
  IEEE non-finite values (NaN, inf) where exact arithmetic is undefined: the square root of
  a negative number, a division by zero, a reciprocal of zero. The model makes each of
  these a value of \<open>num_error\<close>, so no non-finite number ever enters a result.
  \<open>torch.cholesky\<close> raises on a matrix that is not positive definite.
\<close>

datatype num_error = NonFinite | InvalidShape | EmptyReduction | NotPositiveDefinite

subsection \<open>Gather and scatter along the last dimension\<close>

definition gather :: "'a list \<Rightarrow> nat list \<Rightarrow> 'a list" where
  "gather xs idx = map (\<lambda>i. xs ! i) idx"

fun scatter :: "'a list \<Rightarrow> nat list \<Rightarrow> 'a list \<Rightarrow> 'a list" where
  "scatter xs (i # ks) (v # vs) = scatter (xs[i := v]) ks vs"
| "scatter xs _ _ = xs"

lemma length_gather [simp]: "length (gather xs idx) = length idx"
  by (simp add: gather_def)

lemma nth_gather [simp]: "k < length idx \<Longrightarrow> gather xs idx ! k = xs ! (idx ! k)"
  by (simp add: gather_def)

lemma gather_Nil_iff [simp]: "gather xs idx = [] \<longleftrightarrow> idx = []"
  by (simp add: gather_def)

lemma length_scatter [simp]: "length (scatter xs idx vs) = length xs"
  by (induction xs idx vs rule: scatter.induct) simp_all

lemma scatter_nth_other [mat_simps]:
  "p \<notin> set idx \<Longrightarrow> scatter xs idx vs ! p = xs ! p"
  by (induction xs idx vs rule: scatter.induct) auto

lemma scatter_nth_hit [mat_simps]:
  "distinct idx \<Longrightarrow> length idx = length vs \<Longrightarrow> k < length idx \<Longrightarrow> idx ! k < length xs \<Longrightarrow>
   scatter xs idx vs ! (idx ! k) = vs ! k"
proof (induction xs idx vs arbitrary: k rule: scatter.induct)
  case (1 xs i ks v vs)
  show ?case
  proof (cases k)
    case 0
    with "1.prems" show ?thesis by (simp add: scatter_nth_other)
  next
    case (Suc k')
    with "1.prems" have "ks ! k' \<in> set ks" "i \<noteq> ks ! k'" by auto
    with Suc "1.prems" "1.IH" [of k'] show ?thesis by simp
  qed
qed simp_all

lemma scatter_gather_self [simp]: "scatter xs idx (gather xs idx) = xs"
  by (induction idx arbitrary: xs) (simp_all add: gather_def)

subsection \<open>The maximum along a dimension, with its index\<close>

text \<open>
  \<open>torch.max(t, -1)\<close> returns the maximal value and the index of its first occurrence;
  on an empty dimension it raises. \<open>max_acc\<close> is the scan that keeps the best value seen and
  its index, replacing it only on a strictly larger value.
\<close>

fun max_acc :: "real list \<Rightarrow> nat \<Rightarrow> real \<Rightarrow> nat \<Rightarrow> real \<times> nat" where
  "max_acc [] i bv bi = (bv, bi)"
| "max_acc (x # xs) i bv bi =
     (if bv < x then max_acc xs (Suc i) x i else max_acc xs (Suc i) bv bi)"

fun torch_max :: "real list \<Rightarrow> (real \<times> nat) option" where
  "torch_max [] = None"
| "torch_max (x # xs) = Some (max_acc xs 1 x 0)"

definition l1_norm :: "real list \<Rightarrow> real" where
  "l1_norm xs = sum_list (map abs xs)"

lemma max_acc_spec:
  assumes "max_acc xs i bv bi = (v, j)"
  shows "(v = bv \<and> j = bi \<and> (\<forall>y\<in>set xs. y \<le> bv))
       \<or> (i \<le> j \<and> j < i + length xs \<and> xs ! (j - i) = v \<and> bv < v
          \<and> (\<forall>y\<in>set xs. y \<le> v) \<and> (\<forall>k < j - i. xs ! k < v))"
  using assms
proof (induction xs i bv bi rule: max_acc.induct)
  case (1 i bv bi)
  then show ?case by simp
next
  case (2 x xs i bv bi)
  show ?case
  proof (cases "bv < x")
    case True
    with "2.prems" have r: "max_acc xs (Suc i) x i = (v, j)" by simp
    from "2.IH"(1) [OF True r] show ?thesis
    proof
      assume "v = x \<and> j = i \<and> (\<forall>y\<in>set xs. y \<le> x)"
      with True show ?thesis by auto
    next
      assume h: "Suc i \<le> j \<and> j < Suc i + length xs \<and> xs ! (j - Suc i) = v \<and> x < v
          \<and> (\<forall>y\<in>set xs. y \<le> v) \<and> (\<forall>k < j - Suc i. xs ! k < v)"
      then obtain j' where j': "j = Suc i + j'" by (metis le_Suc_ex)
      have "\<forall>k < j - i. (x # xs) ! k < v"
      proof (intro allI impI)
        fix k assume "k < j - i"
        with h j' show "(x # xs) ! k < v" by (cases k) auto
      qed
      with h j' True show ?thesis by auto
    qed
  next
    case False
    with "2.prems" have r: "max_acc xs (Suc i) bv bi = (v, j)" by simp
    from "2.IH"(2) [OF False r] show ?thesis
    proof
      assume "v = bv \<and> j = bi \<and> (\<forall>y\<in>set xs. y \<le> bv)"
      with False show ?thesis by auto
    next
      assume h: "Suc i \<le> j \<and> j < Suc i + length xs \<and> xs ! (j - Suc i) = v \<and> bv < v
          \<and> (\<forall>y\<in>set xs. y \<le> v) \<and> (\<forall>k < j - Suc i. xs ! k < v)"
      then obtain j' where j': "j = Suc i + j'" by (metis le_Suc_ex)
      have "\<forall>k < j - i. (x # xs) ! k < v"
      proof (intro allI impI)
        fix k assume "k < j - i"
        with h j' False show "(x # xs) ! k < v" by (cases k) auto
      qed
      with h j' False show ?thesis by auto
    qed
  qed
qed

text \<open>What \<open>torch.max\<close> promises: a valid index, holding the maximum, first among equals.\<close>

lemma torch_max_spec:
  assumes "torch_max xs = Some (v, j)"
  shows "j < length xs" "xs ! j = v" "\<forall>y\<in>set xs. y \<le> v" "\<forall>k<j. xs ! k < v"
proof -
  obtain x ys where xs: "xs = x # ys" and r: "max_acc ys 1 x 0 = (v, j)"
    using assms by (cases xs) auto
  from max_acc_spec [OF r] xs
  show "j < length xs" "xs ! j = v" "\<forall>y\<in>set xs. y \<le> v" "\<forall>k<j. xs ! k < v"
    by (auto simp: nth_Cons')
qed

lemma torch_max_None [simp]: "torch_max xs = None \<longleftrightarrow> xs = []"
  by (cases xs) auto

lemma torch_max_Max:
  "torch_max xs = Some (v, j) \<Longrightarrow> v = Max (set xs)"
  using torch_max_spec [of xs v j]
  by (intro sym [OF Max_eqI]) (auto simp: nth_mem)

lemma l1_norm_nonneg [simp]: "0 \<le> l1_norm xs"
  by (induction xs) (auto simp: l1_norm_def)

lemma l1_norm_mset: "mset xs = mset ys \<Longrightarrow> l1_norm xs = l1_norm ys"
  by (metis l1_norm_def mset_map sum_mset_sum_list)

subsection \<open>Permutations of the index range\<close>

text \<open>
  A permutation of \<open>[0, n)\<close> is a list with the multiset of \<open>[0..<n]\<close>: each index once.
\<close>

definition is_perm :: "nat \<Rightarrow> nat list \<Rightarrow> bool" where
  "is_perm n p \<longleftrightarrow> mset p = mset [0..<n]"

lemma is_perm_length: "is_perm n p \<Longrightarrow> length p = n"
  unfolding is_perm_def by (metis length_upt minus_nat.diff_0 size_mset)

lemma is_perm_distinct: "is_perm n p \<Longrightarrow> distinct p"
  unfolding is_perm_def by (metis distinct_upt mset_eq_imp_distinct_iff)

lemma is_perm_set: "is_perm n p \<Longrightarrow> set p = {..<n}"
  unfolding is_perm_def by (metis atLeast_upt set_mset_mset)

lemma is_perm_nth_less: "is_perm n p \<Longrightarrow> k < n \<Longrightarrow> p ! k < n"
  using is_perm_set is_perm_length nth_mem by fastforce

lemma is_perm_surj: "is_perm n p \<Longrightarrow> q < n \<Longrightarrow> \<exists>k<n. p ! k = q"
  using is_perm_set is_perm_length by (metis in_set_conv_nth lessThan_iff)

lemma is_perm_inj: "is_perm n p \<Longrightarrow> k < n \<Longrightarrow> k' < n \<Longrightarrow> p ! k = p ! k' \<longleftrightarrow> k = k'"
  using is_perm_distinct is_perm_length nth_eq_iff_index_eq by blast

lemma is_perm_upt [simp]: "is_perm n [0..<n]"
  by (simp add: is_perm_def)

text \<open>Membership in a suffix of a permutation, by position.\<close>

lemma in_set_drop_iff:
  "q \<in> set (drop i xs) \<longleftrightarrow> (\<exists>k. i \<le> k \<and> k < length xs \<and> xs ! k = q)"
proof
  assume "q \<in> set (drop i xs)"
  then obtain k where "k < length (drop i xs)" "drop i xs ! k = q"
    by (auto simp: in_set_conv_nth)
  then show "\<exists>k. i \<le> k \<and> k < length xs \<and> xs ! k = q"
    by (intro exI [of _ "i + k"]) auto
next
  assume "\<exists>k. i \<le> k \<and> k < length xs \<and> xs ! k = q"
  then obtain k where k: "i \<le> k" "k < length xs" "xs ! k = q" by blast
  then have "drop i xs ! (k - i) = q" "k - i < length (drop i xs)" by auto
  then show "q \<in> set (drop i xs)" by (metis nth_mem)
qed

lemma is_perm_in_drop:
  "is_perm n p \<Longrightarrow> k < n \<Longrightarrow> p ! k \<in> set (drop i p) \<longleftrightarrow> i \<le> k"
  using is_perm_inj is_perm_length by (auto simp: in_set_drop_iff)

end
