(* ===== verification/Matrix_Access.thy ===== *)
theory Matrix_Access
  imports Prelude
begin

text \<open>
  How \<open>pivoted_cholesky\<close> reads its input matrix (\<open>src/gpytorch/utils/pivoted_cholesky.py\<close>,
  lines 13--19 for the diagonal and 58--61 for a row). The function accepts either a dense
  tensor or a \<open>LazyTensor\<close> whose entries are only produced on request; the two are the
  two constructors of \<open>matrix_input\<close>. A lazy tensor contributes an approximate diagonal
  (\<open>_approx_diag\<close>, which need not be the true one) and a row oracle (indexing then
  \<open>evaluate\<close>); its implementation lives outside \<open>src/\<close> and is modelled from the spec's
  MatrixAccess interface only.
\<close>

datatype matrix_input =
    Dense mat
  | Lazy vec "nat \<Rightarrow> vec"

text \<open>The diagonal the factorization starts from.\<close>

fun ma_diag :: "matrix_input \<Rightarrow> vec" where
  "ma_diag (Dense A) = map (\<lambda>i. A ! i ! i) [0..<length A]"
| "ma_diag (Lazy d row) = d"

text \<open>Row \<open>i\<close> of the matrix, as \<open>matrix[(*batch_iters, pi_m, :)]\<close> evaluates it.\<close>

fun ma_row :: "matrix_input \<Rightarrow> nat \<Rightarrow> vec" where
  "ma_row (Dense A) i = A ! i"
| "ma_row (Lazy d row) i = row i"

text \<open>An entry of the matrix the input stands for.\<close>

definition ma_entry :: "matrix_input \<Rightarrow> nat \<Rightarrow> nat \<Rightarrow> real" where
  "ma_entry A i j = ma_row A i ! j"

text \<open>
  Shape of one batch element: an \<open>n \<times> n\<close> matrix. For a lazy tensor the diagonal and
  every row it produces have length \<open>n\<close>.
\<close>

fun wf_input :: "nat \<Rightarrow> matrix_input \<Rightarrow> bool" where
  "wf_input n (Dense A) \<longleftrightarrow> length A = n \<and> list_all (\<lambda>r. length r = n) A"
| "wf_input n (Lazy d row) \<longleftrightarrow> length d = n \<and> (\<forall>i<n. length (row i) = n)"

text \<open>Symmetry of the matrix an input stands for, as the algorithm assumes of it.\<close>

definition symmetric_input :: "nat \<Rightarrow> matrix_input \<Rightarrow> bool" where
  "symmetric_input n A \<longleftrightarrow> (\<forall>i<n. \<forall>j<n. ma_entry A i j = ma_entry A j i)"

text \<open>Whether the diagonal an input reports is the true diagonal (always so when dense).\<close>

definition exact_diag :: "nat \<Rightarrow> matrix_input \<Rightarrow> bool" where
  "exact_diag n A \<longleftrightarrow> (\<forall>i<n. ma_diag A ! i = ma_entry A i i)"

lemma length_ma_diag [simp]: "wf_input n A \<Longrightarrow> length (ma_diag A) = n"
  by (cases A) auto

lemma length_ma_row [simp]: "wf_input n A \<Longrightarrow> i < n \<Longrightarrow> length (ma_row A i) = n"
  by (cases A) (auto simp: list_all_length)

lemma exact_diag_Dense [simp]: "wf_input n (Dense A) \<Longrightarrow> exact_diag n (Dense A)"
  by (simp add: exact_diag_def ma_entry_def)

end
