(* ===== verification/Pivoted_Cholesky.thy ===== *)
theory Pivoted_Cholesky
  imports Matrix_Access
begin

text \<open>
  The greedy pivoted partial Cholesky factorization, \<open>pivoted_cholesky\<close> of
  \<open>src/gpytorch/utils/pivoted_cholesky.py\<close> (lines 7--82). The buffers of one batch element
  (\<open>matrix_diag\<close>, \<open>permutation\<close>, \<open>L\<close>, \<open>errors\<close>) form the record \<open>pc_state\<close>; the loop
  body on one element is \<open>pc_elem_step\<close>, on the whole batch \<open>pc_batch_step\<close>; the
  \<open>while\<close> loop is \<open>pc_loop\<close>, and the function itself \<open>pivoted_cholesky\<close>. Arithmetic is
  exact (\<open>real\<close>); where the code would produce a NaN or an infinity the model returns
  \<open>Inl NonFinite\<close>.
\<close>

record pc_state =
  pc_diag :: vec
  pc_perm :: "nat list"
  pc_L :: mat
  pc_err :: real

text \<open>Lines 50--52: the transposition of positions \<open>m\<close> and \<open>j\<close> of the permutation.\<close>

definition swap_perm :: "nat list \<Rightarrow> nat \<Rightarrow> nat \<Rightarrow> nat list" where
  "swap_perm perm m j = (let old_pi_m = perm ! m in (perm[m := perm ! j])[j := old_pi_m])"

text \<open>
  Lines 68--70: \<open>torch.sum(update * L_prev, dim=-2)\<close> at column \<open>q\<close>, the inner product of
  columns \<open>p\<close> and \<open>q\<close> over the first \<open>m\<close> rows of \<open>L\<close>.
\<close>

definition col_dot :: "mat \<Rightarrow> nat \<Rightarrow> nat \<Rightarrow> nat \<Rightarrow> real" where
  "col_dot L m p q = sum_list (map (\<lambda>j. L ! j ! p * L ! j ! q) [0..<m])"

text \<open>
  Lines 43--79, one batch element, iteration \<open>m\<close>, matrix size \<open>n\<close>: pivot selection,
  the swap, the diagonal entry of row \<open>m\<close>, the row fetch, and, when \<open>m + 1 < n\<close>, the
  orthogonalization, the deflation of the unpivoted diagonal and the new error.
\<close>

definition pc_elem_step :: "nat \<Rightarrow> matrix_input \<Rightarrow> nat \<Rightarrow> pc_state \<Rightarrow> num_error + pc_state" where
  "pc_elem_step n A m s =
    (case torch_max (gather (pc_diag s) (drop m (pc_perm s))) of
       None \<Rightarrow> Inl EmptyReduction
     | Some (max_diag_value, max_diag_index) \<Rightarrow>
        (let perm = swap_perm (pc_perm s) m (max_diag_index + m);
             pi_m = perm ! m
         in if max_diag_value < 0 then Inl NonFinite
         else
           (let L_m = (pc_L s ! m)[pi_m := sqrt max_diag_value];
                row = ma_row A pi_m
            in if m + 1 < n then
              (let pi_i = drop (m + 1) perm;
                   new0 = gather row pi_i;
                   new1 = (if 0 < m
                           then map2 (-) new0 (map (col_dot (pc_L s) m pi_m) pi_i)
                           else new0);
                   pivot = L_m ! pi_m
               in if pivot = 0 then Inl NonFinite
               else
                 (let L_m_new = map (\<lambda>x. x / pivot) new1;
                      diag = scatter (pc_diag s) pi_i
                               (map2 (\<lambda>d l. d - l\<^sup>2) (gather (pc_diag s) pi_i) L_m_new)
                  in Inr \<lparr>pc_diag = diag, pc_perm = perm,
                          pc_L = (pc_L s)[m := scatter L_m pi_i L_m_new],
                          pc_err = l1_norm (gather diag pi_i)\<rparr>))
            else Inr (s\<lparr>pc_perm := perm, pc_L := (pc_L s)[m := L_m]\<rparr>))))"

text \<open>
  The loop body runs on every batch element at once, with the same \<open>m\<close>; a non-finite
  value in any element makes the whole result non-finite.
\<close>

fun pc_batch_step ::
  "nat \<Rightarrow> matrix_input list \<Rightarrow> nat \<Rightarrow> pc_state list \<Rightarrow> num_error + pc_state list" where
  "pc_batch_step n [] m [] = Inr []"
| "pc_batch_step n (A # As) m (s # ss) =
     (case pc_elem_step n A m s of
        Inl e \<Rightarrow> Inl e
      | Inr s' \<Rightarrow> (case pc_batch_step n As m ss of
                    Inl e \<Rightarrow> Inl e
                  | Inr ss' \<Rightarrow> Inr (s' # ss')))"
| "pc_batch_step n _ m _ = Inl InvalidShape"

text \<open>
  Line 42: \<open>while m < max_iter and torch.max(errors) > error_tol\<close>. The maximum is over the
  whole batch, and Python's \<open>and\<close> evaluates it only when \<open>m < max_iter\<close>.
\<close>

function pc_loop ::
  "nat \<Rightarrow> matrix_input list \<Rightarrow> nat \<Rightarrow> real \<Rightarrow> nat \<Rightarrow> pc_state list
   \<Rightarrow> num_error + nat \<times> pc_state list" where
  "pc_loop n As max_iter error_tol m ss =
    (if m < max_iter then
       (case torch_max (map pc_err ss) of
          None \<Rightarrow> Inl EmptyReduction
        | Some (max_err, _) \<Rightarrow>
            if error_tol < max_err then
              (case pc_batch_step n As m ss of
                 Inl e \<Rightarrow> Inl e
               | Inr ss' \<Rightarrow> pc_loop n As max_iter error_tol (m + 1) ss')
            else Inr (m, ss))
     else Inr (m, ss))"
  by pat_completeness auto
termination
  by (relation "measure (\<lambda>(n, As, max_iter, error_tol, m, ss). max_iter - m)") auto

declare pc_loop.simps [simp del]

text \<open>Lines 10--29: the buffers of one batch element before the loop.\<close>

definition pc_init :: "nat \<Rightarrow> nat \<Rightarrow> matrix_input \<Rightarrow> pc_state" where
  "pc_init n max_iter A =
    \<lparr>pc_diag = ma_diag A, pc_perm = [0..<n],
     pc_L = replicate max_iter (replicate n 0), pc_err = l1_norm (ma_diag A)\<rparr>"

text \<open>
  The whole function: \<open>n\<close> is \<open>matrix_shape[-1]\<close>, the batch is the list of its elements,
  \<open>max_iter\<close> is a Python integer clamped to \<open>n\<close> (line 22), and a negative row count makes
  \<open>torch.zeros\<close> raise (line 25). The result is \<open>L[..., :m, :]\<close> for every element (line 82).
\<close>

definition pivoted_cholesky ::
  "nat \<Rightarrow> matrix_input list \<Rightarrow> int \<Rightarrow> real \<Rightarrow> num_error + mat list" where
  "pivoted_cholesky n As max_iter error_tol =
    (let mi = min max_iter (int n)
     in if mi < 0 then Inl InvalidShape
        else (case pc_loop n As (nat mi) error_tol 0 (map (pc_init n (nat mi)) As) of
                Inl e \<Rightarrow> Inl e
              | Inr (m, ss) \<Rightarrow> Inr (map (\<lambda>s. take m (pc_L s)) ss)))"

text \<open>
  Evaluation of the model on concrete inputs: the simplifier runs the loop, deciding each
  guard on the numbers.
\<close>

lemmas pc_eval = pivoted_cholesky_def pc_loop.simps pc_elem_step_def pc_init_def
  swap_perm_def col_dot_def gather_def l1_norm_def Let_def upt_rec

lemma pc_example_2x2: "pivoted_cholesky 2 [Dense [[4, 2], [2, 2]]] 2 0 = Inr [[[2, 1], [0, 1]]]"
  by (simp add: pc_eval numeral_2_eq_2)


lemma pc_example_3x3_rank1:
  "pivoted_cholesky 3 [Dense [[4, 2, 0], [2, 2, 1], [0, 1, 3]]] 1 0 = Inr [[[2, 1, 0]]]"
  by (simp add: pc_eval numeral_3_eq_3)

end
