(* ===== verification/PC_Invariants.thy ===== *)
theory PC_Invariants
  imports Pivoted_Cholesky
begin

text \<open>
  The structure the loop of \<open>pivoted_cholesky\<close> keeps in each batch element: the
  permutation stays a permutation, the rows of \<open>L\<close> not yet computed stay zero, and row
  \<open>r\<close> is zero at the indices pivoted before it (a lower-triangular factor up to the
  permutation). The step lemma \<open>pc_elem_step_facts\<close> describes one iteration position by
  position; every later proof about the loop uses it instead of the definition.
\<close>

definition pc_inv :: "nat \<Rightarrow> nat \<Rightarrow> nat \<Rightarrow> pc_state \<Rightarrow> bool" where
  "pc_inv n mi m s \<longleftrightarrow>
     length (pc_diag s) = n \<and> is_perm n (pc_perm s) \<and>
     length (pc_L s) = mi \<and> (\<forall>r<mi. length (pc_L s ! r) = n) \<and>
     (\<forall>r\<in>{m..<mi}. pc_L s ! r = replicate n 0) \<and>
     (\<forall>r<m. \<forall>k<r. pc_L s ! r ! (pc_perm s ! k) = 0)"

subsection \<open>The transposition\<close>

lemma length_swap_perm [simp]: "length (swap_perm p m j) = length p"
  by (simp add: swap_perm_def Let_def)

lemma swap_perm_nth_other:
  "k \<noteq> m \<Longrightarrow> k \<noteq> j \<Longrightarrow> swap_perm p m j ! k = p ! k"
  by (simp add: swap_perm_def Let_def)

lemma swap_perm_nth_m:
  "m < length p \<Longrightarrow> j < length p \<Longrightarrow> swap_perm p m j ! m = p ! j"
  by (cases "m = j") (simp_all add: swap_perm_def Let_def)

lemma swap_perm_nth_j:
  "m < length p \<Longrightarrow> j < length p \<Longrightarrow> swap_perm p m j ! j = p ! m"
  by (simp add: swap_perm_def Let_def)

lemma is_perm_swap_perm:
  "is_perm n p \<Longrightarrow> m < n \<Longrightarrow> j < n \<Longrightarrow> is_perm n (swap_perm p m j)"
  using mset_swap [of j p m] is_perm_length [of n p]
  by (simp add: is_perm_def swap_perm_def Let_def)

lemma swap_perm_in_drop:
  assumes "is_perm n p" "m \<le> j" "j < n" "k < n"
  shows "swap_perm p m j ! k \<in> set (drop m p) \<longleftrightarrow> m \<le> k"
proof -
  have p': "is_perm n (swap_perm p m j)" using assms by (simp add: is_perm_swap_perm)
  have "swap_perm p m j ! k = p ! (if k = m then j else if k = j then m else k)"
    using assms is_perm_length [OF assms(1)]
    by (auto simp: swap_perm_nth_m swap_perm_nth_j swap_perm_nth_other)
  with assms show ?thesis
    by (auto simp: is_perm_in_drop)
qed

text \<open>The suffix from position \<open>a \<le> m\<close> is the same set before and after the swap.\<close>

lemma swap_perm_set_drop_le:
  assumes "is_perm n p" "a \<le> m" "m \<le> j" "j < n"
  shows "set (drop a (swap_perm p m j)) = set (drop a p)"
proof -
  have "mset (drop a (swap_perm p m j)) = mset (drop a p)"
  proof -
    have l: "length p = n" using assms(1) by (rule is_perm_length)
    have "drop a (swap_perm p m j) = (drop a p)[m - a := p ! j, j - a := p ! m]"
      using assms l by (simp add: swap_perm_def Let_def drop_update_swap)
    moreover have "mset ((drop a p)[m - a := p ! j, j - a := p ! m]) = mset (drop a p)"
      using mset_swap [of "j - a" "drop a p" "m - a"] assms l by simp
    ultimately show ?thesis by simp
  qed
  then show ?thesis by (metis set_mset_mset)
qed

subsection \<open>One iteration, position by position\<close>

lemma col_dot_0 [simp]: "col_dot L 0 p q = 0"
  by (simp add: col_dot_def)

lemma map2_minus_zeros: "map2 (-) xs (map (\<lambda>_. 0::real) ys) = take (length ys) xs"
  by (induction xs ys rule: list_induct2') auto

text \<open>
  The guard \<open>if m > 0\<close> of line 67 only skips an empty sum: the update it guards is zero
  for \<open>m = 0\<close>. The closed form of a successful iteration therefore has one shape.
\<close>

lemma pc_new_row:
  "(if 0 < m then map2 (-) (gather row ix) (map (col_dot L m p) ix) else gather row ix)
   = map (\<lambda>q. row ! q - col_dot L m p q) ix"
  by (cases m) (simp_all add: gather_def map2_map_map)

lemma pc_elem_step_Inr:
  assumes st: "pc_elem_step n A m s = Inr s'"
    and perm: "is_perm n (pc_perm s)" and row: "length (pc_L s ! m) = n"
  obtains v jj where
    "torch_max (gather (pc_diag s) (drop m (pc_perm s))) = Some (v, jj)" "0 \<le> v"
    "m + 1 < n \<Longrightarrow>
       (let p' = swap_perm (pc_perm s) m (jj + m);
            pi_i = drop (m + 1) p';
            L_new = map (\<lambda>q. (ma_row A (p' ! m) ! q - col_dot (pc_L s) m (p' ! m) q) / sqrt v) pi_i;
            diag = scatter (pc_diag s) pi_i (map2 (\<lambda>x y. x - y\<^sup>2) (gather (pc_diag s) pi_i) L_new)
        in sqrt v \<noteq> 0 \<and>
           s' = \<lparr>pc_diag = diag, pc_perm = p',
                 pc_L = (pc_L s)[m := scatter ((pc_L s ! m)[p' ! m := sqrt v]) pi_i L_new],
                 pc_err = l1_norm (gather diag pi_i)\<rparr>)"
    "\<not> m + 1 < n \<Longrightarrow>
       (let p' = swap_perm (pc_perm s) m (jj + m)
        in s' = s\<lparr>pc_perm := p', pc_L := (pc_L s)[m := (pc_L s ! m)[p' ! m := sqrt v]]\<rparr>)"
proof -
  obtain v jj where tm: "torch_max (gather (pc_diag s) (drop m (pc_perm s))) = Some (v, jj)"
    using st by (cases "torch_max (gather (pc_diag s) (drop m (pc_perm s)))")
      (auto simp: pc_elem_step_def)
  have v: "0 \<le> v" using st tm by (auto simp: pc_elem_step_def Let_def split: if_splits)
  define p' where "p' = swap_perm (pc_perm s) m (jj + m)"
  have c2: "s' = s\<lparr>pc_perm := p', pc_L := (pc_L s)[m := (pc_L s ! m)[p' ! m := sqrt v]]\<rparr>"
    if "\<not> m + 1 < n"
    using st tm v that by (simp add: pc_elem_step_def Let_def p'_def)
  from tm have "drop m (pc_perm s) \<noteq> []" by (auto simp: gather_def)
  with torch_max_spec(1) [OF tm] perm have mj: "m < n" "jj + m < n"
    by (auto simp: is_perm_length)
  with perm have "p' ! m < n"
    by (simp add: p'_def is_perm_nth_less is_perm_swap_perm)
  with row have piv: "(pc_L s ! m)[p' ! m := sqrt v] ! (p' ! m) = sqrt v" by simp
  have c1: "let pi_i = drop (m + 1) p';
            L_new = map (\<lambda>q. (ma_row A (p' ! m) ! q - col_dot (pc_L s) m (p' ! m) q) / sqrt v) pi_i;
            diag = scatter (pc_diag s) pi_i (map2 (\<lambda>x y. x - y\<^sup>2) (gather (pc_diag s) pi_i) L_new)
        in sqrt v \<noteq> 0 \<and>
           s' = \<lparr>pc_diag = diag, pc_perm = p',
                 pc_L = (pc_L s)[m := scatter ((pc_L s ! m)[p' ! m := sqrt v]) pi_i L_new],
                 pc_err = l1_norm (gather diag pi_i)\<rparr>"
    if "m + 1 < n"
    using st tm v that piv
    by (simp add: pc_elem_step_def Let_def p'_def [symmetric] pc_new_row comp_def split: if_splits)
  show thesis
    using that [OF tm v] c1 c2 by (simp add: p'_def Let_def)

qed

text \<open>Reading a scatter over the suffix \<open>drop (m + 1) p\<close> of a permutation, by position.\<close>

lemma scatter_suffix_hit:
  assumes "is_perm n p" "m < k" "k < n" "length vs = n - Suc m" "length xs = n"
  shows "scatter xs (drop (Suc m) p) vs ! (p ! k) = vs ! (k - Suc m)"
proof -
  have "drop (Suc m) p ! (k - Suc m) = p ! k" "k - Suc m < length (drop (Suc m) p)"
    using assms is_perm_length [OF assms(1)] by auto
  moreover have "distinct (drop (Suc m) p)" using is_perm_distinct [OF assms(1)] by simp
  ultimately show ?thesis
    using assms is_perm_length [OF assms(1)] is_perm_nth_less [OF assms(1)]
    by (metis length_drop scatter_nth_hit)
qed

lemma scatter_suffix_other:
  "is_perm n p \<Longrightarrow> k \<le> m \<Longrightarrow> k < n \<Longrightarrow> scatter xs (drop (Suc m) p) vs ! (p ! k) = xs ! (p ! k)"
  by (simp add: scatter_nth_other is_perm_in_drop)

lemma pc_elem_step_facts:
  assumes inv: "pc_inv n mi m s" and mm: "m < mi" "mi \<le> n"
    and st: "pc_elem_step n A m s = Inr s'"
  defines "p' \<equiv> pc_perm s'" and "d \<equiv> pc_diag s ! (pc_perm s' ! m)" and "R \<equiv> pc_L s' ! m"
  shows "\<exists>j. m \<le> j \<and> j < n \<and> p' = swap_perm (pc_perm s) m j"
    and "d = Max (set (gather (pc_diag s) (drop m (pc_perm s))))"
    and "0 \<le> d"
    and "pc_L s' = (pc_L s)[m := R]"
    and "length R = n"
    and "R ! (p' ! m) = sqrt d"
    and "\<forall>k<m. R ! (p' ! k) = 0"
    and "length (pc_diag s') = n"
    and "\<forall>k\<le>m. pc_diag s' ! (p' ! k) = pc_diag s ! (p' ! k)"
    and "m + 1 < n \<Longrightarrow> 0 < d"
    and "m + 1 < n \<Longrightarrow> \<forall>k. m < k \<and> k < n \<longrightarrow>
           R ! (p' ! k) = (ma_row A (p' ! m) ! (p' ! k) - col_dot (pc_L s) m (p' ! m) (p' ! k)) / sqrt d"
    and "m + 1 < n \<Longrightarrow> \<forall>k. m < k \<and> k < n \<longrightarrow>
           pc_diag s' ! (p' ! k) = pc_diag s ! (p' ! k) - (R ! (p' ! k))\<^sup>2"
    and "m + 1 < n \<Longrightarrow> pc_err s' = l1_norm (gather (pc_diag s') (drop (m + 1) p'))"
    and "\<not> m + 1 < n \<Longrightarrow> pc_diag s' = pc_diag s \<and> pc_err s' = pc_err s"
proof -
  have perm: "is_perm n (pc_perm s)" and dl: "length (pc_diag s) = n"
    and Ll: "length (pc_L s) = mi" and rowl: "\<forall>r<mi. length (pc_L s ! r) = n"
    and zero: "pc_L s ! m = replicate n 0"
    using inv mm by (auto simp: pc_inv_def)
  have rowm: "length (pc_L s ! m) = n" using rowl mm by simp
  obtain v jj where tm: "torch_max (gather (pc_diag s) (drop m (pc_perm s))) = Some (v, jj)"
    and v: "0 \<le> v"
    and c1: "m + 1 < n \<Longrightarrow>
       (let p' = swap_perm (pc_perm s) m (jj + m);
            pi_i = drop (m + 1) p';
            L_new = map (\<lambda>q. (ma_row A (p' ! m) ! q - col_dot (pc_L s) m (p' ! m) q) / sqrt v) pi_i;
            diag = scatter (pc_diag s) pi_i (map2 (\<lambda>x y. x - y\<^sup>2) (gather (pc_diag s) pi_i) L_new)
        in sqrt v \<noteq> 0 \<and>
           s' = \<lparr>pc_diag = diag, pc_perm = p',
                 pc_L = (pc_L s)[m := scatter ((pc_L s ! m)[p' ! m := sqrt v]) pi_i L_new],
                 pc_err = l1_norm (gather diag pi_i)\<rparr>)"
    and c2: "\<not> m + 1 < n \<Longrightarrow>
       (let p' = swap_perm (pc_perm s) m (jj + m)
        in s' = s\<lparr>pc_perm := p', pc_L := (pc_L s)[m := (pc_L s ! m)[p' ! m := sqrt v]]\<rparr>)"
    by (rule pc_elem_step_Inr [OF st perm rowm]) blast
  have mn: "m < n" using mm by simp
  have jj: "jj < n - m" using torch_max_spec(1) [OF tm] perm by (simp add: is_perm_length)
  define q where "q = swap_perm (pc_perm s) m (jj + m)"
  have pq: "p' = q" using c1 c2 by (cases "m + 1 < n") (simp_all add: p'_def q_def Let_def)
  have qperm: "is_perm n q" using perm mn jj by (simp add: q_def is_perm_swap_perm)
  have qm: "q ! m = pc_perm s ! (jj + m)"
    using perm mn jj by (simp add: q_def swap_perm_nth_m is_perm_length)
  have qk: "q ! k = pc_perm s ! k" if "k < m" for k
    using that jj by (simp add: q_def swap_perm_nth_other)
  have qmn: "q ! m < n" using qperm mn by (simp add: is_perm_nth_less)
  have dv: "d = v"
    using torch_max_spec(2) [OF tm] jj perm pq qm
    by (simp add: d_def p'_def [symmetric] is_perm_length add.commute)
  show "\<exists>j. m \<le> j \<and> j < n \<and> p' = swap_perm (pc_perm s) m j"
    using pq jj by (auto simp: q_def intro!: exI [of _ "jj + m"])
  show "d = Max (set (gather (pc_diag s) (drop m (pc_perm s))))"
    using torch_max_Max [OF tm] dv by simp
  show "0 \<le> d" using v dv by simp
  show "m + 1 < n \<Longrightarrow> 0 < d" using c1 v dv by (simp add: Let_def)
  define pi_i where "pi_i = drop (m + 1) q"
  define L_new where "L_new = map (\<lambda>x. (ma_row A (q ! m) ! x - col_dot (pc_L s) m (q ! m) x) / sqrt v) pi_i"
  define diag where "diag = scatter (pc_diag s) pi_i (map2 (\<lambda>x y. x - y\<^sup>2) (gather (pc_diag s) pi_i) L_new)"
  have s1: "s' = \<lparr>pc_diag = diag, pc_perm = q,
                 pc_L = (pc_L s)[m := scatter ((pc_L s ! m)[q ! m := sqrt v]) pi_i L_new],
                 pc_err = l1_norm (gather diag pi_i)\<rparr>" if "m + 1 < n"
    using c1 [OF that] by (simp add: Let_def q_def pi_i_def L_new_def diag_def)
  have s2: "s' = s\<lparr>pc_perm := q, pc_L := (pc_L s)[m := (pc_L s ! m)[q ! m := sqrt v]]\<rparr>"
    if "\<not> m + 1 < n"
    using c2 [OF that] by (simp add: Let_def q_def)
  have lnew: "length L_new = n - Suc m" using qperm by (simp add: L_new_def pi_i_def is_perm_length)
  have Rq: "R = (if m + 1 < n then scatter ((pc_L s ! m)[q ! m := sqrt v]) pi_i L_new
                else (pc_L s ! m)[q ! m := sqrt v])"
    using s1 s2 Ll mm by (simp add: R_def)
  show "pc_L s' = (pc_L s)[m := R]" using s1 s2 Rq by (cases "m + 1 < n") simp_all
  show "length R = n" using Rq rowm by simp
  have zk: "(pc_L s ! m)[q ! m := sqrt v] ! (q ! k) = (if k = m then sqrt v else 0)"
    if "k < n" for k
    using that zero mn qmn qperm by (auto simp: is_perm_inj is_perm_nth_less)
  show "R ! (p' ! m) = sqrt d"
    using Rq zk [OF mn] qperm mn dv pq by (simp add: pi_i_def scatter_suffix_other)
  show "\<forall>k<m. R ! (p' ! k) = 0"
    using Rq zk qperm mn pq by (auto simp: pi_i_def scatter_suffix_other)
  show "length (pc_diag s') = n" using s1 s2 dl by (cases "m + 1 < n") (simp_all add: diag_def)
  show "\<forall>k\<le>m. pc_diag s' ! (p' ! k) = pc_diag s ! (p' ! k)"
    using s1 s2 qperm mn pq by (cases "m + 1 < n") (auto simp: diag_def pi_i_def scatter_suffix_other)
  show "m + 1 < n \<Longrightarrow> \<forall>k. m < k \<and> k < n \<longrightarrow>
           R ! (p' ! k) = (ma_row A (p' ! m) ! (p' ! k) - col_dot (pc_L s) m (p' ! m) (p' ! k)) / sqrt d"
    using Rq qperm lnew rowm dv pq
    by (auto simp: pi_i_def scatter_suffix_hit L_new_def is_perm_length)
  show "m + 1 < n \<Longrightarrow> \<forall>k. m < k \<and> k < n \<longrightarrow>
           pc_diag s' ! (p' ! k) = pc_diag s ! (p' ! k) - (R ! (p' ! k))\<^sup>2"
    using s1 Rq qperm lnew rowm dl pq
    by (auto simp: diag_def pi_i_def scatter_suffix_hit L_new_def is_perm_length)
  show "m + 1 < n \<Longrightarrow> pc_err s' = l1_norm (gather (pc_diag s') (drop (m + 1) p'))"
    using s1 pq by (simp add: pi_i_def)
  show "\<not> m + 1 < n \<Longrightarrow> pc_diag s' = pc_diag s \<and> pc_err s' = pc_err s"
    using s2 by simp
qed

subsection \<open>The invariant through the loop\<close>

lemma pc_inv_init: "wf_input n A \<Longrightarrow> pc_inv n mi 0 (pc_init n mi A)"
  by (simp add: pc_inv_def pc_init_def)

lemma pc_inv_step:
  assumes inv: "pc_inv n mi m s" and mm: "m < mi" "mi \<le> n"
    and st: "pc_elem_step n A m s = Inr s'"
  shows "pc_inv n mi (Suc m) s'"
proof -
  note f = pc_elem_step_facts [OF inv mm st]
  obtain j where j: "m \<le> j" "j < n" "pc_perm s' = swap_perm (pc_perm s) m j" using f(1) by blast
  have perm: "is_perm n (pc_perm s)" and Ll: "length (pc_L s) = mi"
    and rowl: "\<forall>r<mi. length (pc_L s ! r) = n"
    and zero: "\<forall>r\<in>{m..<mi}. pc_L s ! r = replicate n 0"
    and tri: "\<forall>r<m. \<forall>k<r. pc_L s ! r ! (pc_perm s ! k) = 0"
    using inv by (auto simp: pc_inv_def)
  have Lr: "pc_L s' ! r = pc_L s ! r" if "r \<noteq> m" for r
    using f(4) that by (metis nth_list_update_neq)
  have Ll': "length (pc_L s') = mi" using f(4) Ll by (metis length_list_update)
  have pk: "pc_perm s' ! k = pc_perm s ! k" if "k < m" for k
    using that j by (simp add: swap_perm_nth_other)
  have "\<forall>r<Suc m. \<forall>k<r. pc_L s' ! r ! (pc_perm s' ! k) = 0"
  proof (intro allI impI)
    fix r k assume r: "r < Suc m" and k: "k < r"
    show "pc_L s' ! r ! (pc_perm s' ! k) = 0"
    proof (cases "r = m")
      case True
      with k f(7) show ?thesis by simp
    next
      case False
      with r k tri pk Lr show ?thesis by simp
    qed
  qed
  moreover have "\<forall>r<mi. length (pc_L s' ! r) = n"
    using rowl f(5) Lr by (metis (full_types))
  moreover have "\<forall>r\<in>{Suc m..<mi}. pc_L s' ! r = replicate n 0"
    using zero Lr by auto
  ultimately show ?thesis
    using f(8) j perm Ll' by (simp add: pc_inv_def is_perm_swap_perm)
qed

text \<open>
  The batch and the loop keep any per-element property that one iteration keeps: the
  structural invariant here and the factorization invariant of \<open>PC_Factor\<close> are both
  instances.
\<close>

lemma pc_batch_step_preserves:
  assumes "pc_batch_step n As m ss = Inr ss'" "list_all2 (I m) As ss"
    and "\<And>A s s'. I m A s \<Longrightarrow> pc_elem_step n A m s = Inr s' \<Longrightarrow> I (Suc m) A s'"
  shows "list_all2 (I (Suc m)) As ss'"
  using assms
  by (induction n As m ss arbitrary: ss' rule: pc_batch_step.induct)
    (auto split: sum.splits)

lemma pc_loop_preserves:
  assumes "pc_loop n As mi tol m ss = Inr (m', ss')" "list_all2 (I m) As ss" "m \<le> mi"
    and step: "\<And>m A s s'. m < mi \<Longrightarrow> I m A s \<Longrightarrow> pc_elem_step n A m s = Inr s' \<Longrightarrow> I (Suc m) A s'"
  shows "m \<le> m' \<and> m' \<le> mi \<and> list_all2 (I m') As ss' \<and>
         (m' = mi \<or> (\<exists>e j. torch_max (map pc_err ss') = Some (e, j) \<and> e \<le> tol))"
  using assms
proof (induction n As mi tol m ss rule: pc_loop.induct)
  case (1 n As mi tol m ss)
  show ?case
  proof (cases "m < mi")
    case False
    with "1.prems" show ?thesis by (simp add: pc_loop.simps [of n As mi tol m ss])
  next
    case True
    then obtain e j where tm: "torch_max (map pc_err ss) = Some (e, j)"
      using "1.prems"(1) by (cases "torch_max (map pc_err ss)")
        (auto simp: pc_loop.simps [of n As mi tol m ss])
    show ?thesis
    proof (cases "tol < e")
      case False
      with True tm "1.prems" show ?thesis by (simp add: pc_loop.simps [of n As mi tol m ss])
    next
      case go: True
      with True tm "1.prems"(1) obtain ss1 where b: "pc_batch_step n As m ss = Inr ss1"
        and r: "pc_loop n As mi tol (m + 1) ss1 = Inr (m', ss')"
        by (auto simp: pc_loop.simps [of n As mi tol m ss] split: sum.splits)
      have "list_all2 (I (Suc m)) As ss1"
        using b "1.prems"(2) by (rule pc_batch_step_preserves) (rule "1.prems"(4) [OF True])
      moreover have "Suc m \<le> mi" using True by simp
      ultimately have "Suc m \<le> m' \<and> m' \<le> mi \<and> list_all2 (I m') As ss' \<and>
         (m' = mi \<or> (\<exists>e j. torch_max (map pc_err ss') = Some (e, j) \<and> e \<le> tol))"
        using "1.IH" [OF True tm refl go b r] "1.prems"(4) by simp
      then show ?thesis by simp
    qed
  qed
qed

text \<open>The structural invariant through the whole loop.\<close>

lemma pc_loop_inv:
  assumes "pc_loop n As mi tol m ss = Inr (m', ss')" "list_all2 (\<lambda>A. pc_inv n mi m) As ss"
    "m \<le> mi" "mi \<le> n"
  shows "m \<le> m' \<and> m' \<le> mi \<and> list_all2 (\<lambda>A. pc_inv n mi m') As ss' \<and>
         (m' = mi \<or> (\<exists>e j. torch_max (map pc_err ss') = Some (e, j) \<and> e \<le> tol))"
  using pc_loop_preserves [where I = "\<lambda>m A. pc_inv n mi m", OF assms(1-3)] pc_inv_step assms(4)
  by blast

subsection \<open>The whole function\<close>

lemma pivoted_cholesky_Inr:
  assumes "pivoted_cholesky n As max_iter error_tol = Inr Ls"
  obtains m ss where "0 \<le> max_iter"
    "pc_loop n As (nat (min max_iter (int n))) error_tol 0
       (map (pc_init n (nat (min max_iter (int n)))) As) = Inr (m, ss)"
    "Ls = map (\<lambda>s. take m (pc_L s)) ss"
  using assms
  by (cases "pc_loop n As (nat (min max_iter (int n))) error_tol 0
              (map (pc_init n (nat (min max_iter (int n)))) As)")
     (auto simp: pivoted_cholesky_def Let_def split: if_splits)

lemma list_all2_map_right:
  "list_all2 P xs (map f xs) \<longleftrightarrow> (\<forall>x\<in>set xs. P x (f x))"
  by (induction xs) auto

lemma list_all2_init:
  "list_all (wf_input n) As \<Longrightarrow> list_all2 (\<lambda>A. pc_inv n mi 0) As (map (pc_init n mi) As)"
  by (auto simp: list_all2_map_right list_all_iff pc_inv_init)

lemma list_all2_right_set:
  "list_all2 (\<lambda>A. P) As ss \<Longrightarrow> s \<in> set ss \<Longrightarrow> P s"
  by (metis (no_types, lifting) in_set_conv_nth list_all2_conv_all_nth)

subsection \<open>Shape of the result\<close>

text \<open>
  C4. Every batch element's factor has the same number \<open>m\<close> of rows, at most \<open>max_iter\<close>
  and at most \<open>n\<close>; every row has length \<open>n\<close>; and there is a permutation of the indices
  under which the factor is lower triangular: row \<open>r\<close> is zero at the indices pivoted
  before it.
\<close>

theorem pivoted_cholesky_shape:
  assumes ok: "pivoted_cholesky n As max_iter error_tol = Inr Ls"
    and wf: "list_all (wf_input n) As"
  shows "length Ls = length As \<and>
    (\<exists>m\<le>n. int m \<le> max_iter \<and>
       (\<forall>L\<in>set Ls. length L = m \<and> (\<forall>r\<in>set L. length r = n) \<and>
          (\<exists>p. is_perm n p \<and> (\<forall>r<m. \<forall>k<r. L ! r ! (p ! k) = 0))))"
proof -
  let ?mi = "nat (min max_iter (int n))"
  obtain m ss where nn: "0 \<le> max_iter"
    and loop: "pc_loop n As ?mi error_tol 0 (map (pc_init n ?mi) As) = Inr (m, ss)"
    and Ls: "Ls = map (\<lambda>s. take m (pc_L s)) ss"
    using ok by (rule pivoted_cholesky_Inr)
  have "0 \<le> m \<and> m \<le> ?mi \<and> list_all2 (\<lambda>A. pc_inv n ?mi m) As ss"
    using pc_loop_inv [OF loop list_all2_init [OF wf]] by simp
  then have m: "m \<le> ?mi" and inv: "\<And>s. s \<in> set ss \<Longrightarrow> pc_inv n ?mi m s"
    and len: "length ss = length As"
    by (auto dest: list_all2_right_set list_all2_lengthD)
  have "\<forall>L\<in>set Ls. length L = m \<and> (\<forall>r\<in>set L. length r = n) \<and>
          (\<exists>p. is_perm n p \<and> (\<forall>r<m. \<forall>k<r. L ! r ! (p ! k) = 0))"
  proof
    fix L assume "L \<in> set Ls"
    then obtain s where s: "s \<in> set ss" and L: "L = take m (pc_L s)" using Ls by auto
    from inv [OF s] m show "length L = m \<and> (\<forall>r\<in>set L. length r = n) \<and>
          (\<exists>p. is_perm n p \<and> (\<forall>r<m. \<forall>k<r. L ! r ! (p ! k) = 0))"
      by (auto simp: L pc_inv_def in_set_conv_nth)
  qed
  moreover have "m \<le> n" "int m \<le> max_iter" using m nn by auto
  ultimately show ?thesis using Ls len by auto
qed

theorem pivoted_cholesky_shape_witness:
  "pivoted_cholesky 2 [Dense [[4, 2], [2, 2]]] 2 0 = Inr [[[2, 1], [0, 1]]] \<and>
   list_all (wf_input 2) [Dense [[4, 2], [2, 2]]] \<and>
   (\<exists>m\<le>2. int m \<le> 2 \<and> (\<exists>p. is_perm 2 p \<and> (\<forall>r<m. \<forall>k<r. [[2, 1], [0, 1::real]] ! r ! (p ! k) = 0)))"
proof -
  have h: "pivoted_cholesky 2 [Dense [[4, 2], [2, 2]]] 2 0 = Inr [[[2, 1], [0, 1]]]"
    by (rule pc_example_2x2)
  have w: "list_all (wf_input 2) [Dense [[4, 2], [2, (2::real)]]]" by simp
  from pivoted_cholesky_shape [OF h w] h w show ?thesis by auto
qed
end
