(* ===== verification/PC_Factor.thy ===== *)
theory PC_Factor
  imports PC_Invariants
begin

text \<open>
  What the rows of \<open>L\<close> mean: the Cholesky invariant of the loop of \<open>pivoted_cholesky\<close>.
  After \<open>m\<close> iterations, with \<open>G p q\<close> the inner product of columns \<open>p\<close> and \<open>q\<close> of \<open>L\<close>
  (\<open>col_dot\<close>, the entry \<open>(L\<^sup>T L)[p, q]\<close>):
  \<^item> every unpivoted diagonal entry is the residual \<open>A[q, q] - G q q\<close>;
  \<^item> for every pivot \<open>perm[a]\<close> (\<open>a < m\<close>) and every index \<open>q\<close> not pivoted before it,
    \<open>G perm[a] q = A[perm[a], q]\<close>: the low-rank product is exact on the pivot rows.
  The invariant holds for exact arithmetic and a true diagonal; no symmetry is needed for
  it, only for reading off the full matrix when \<open>m = n\<close>.
\<close>

definition pc_factor_inv :: "matrix_input \<Rightarrow> nat \<Rightarrow> pc_state \<Rightarrow> bool" where
  "pc_factor_inv A m s \<longleftrightarrow>
     (\<forall>q\<in>set (drop m (pc_perm s)).
        pc_diag s ! q = ma_entry A q q - col_dot (pc_L s) m q q) \<and>
     (\<forall>a<m. \<forall>q\<in>set (drop a (pc_perm s)).
        col_dot (pc_L s) m (pc_perm s ! a) q = ma_entry A (pc_perm s ! a) q)"

lemma col_dot_cong:
  assumes "\<And>j. j < m \<Longrightarrow> L' ! j = L ! j"
  shows "col_dot L' m p q = col_dot L m p q"
proof -
  have "map (\<lambda>j. L' ! j ! p * L' ! j ! q) [0..<m] = map (\<lambda>j. L ! j ! p * L ! j ! q) [0..<m]"
    using assms by (intro map_cong) auto
  then show ?thesis unfolding col_dot_def by (rule arg_cong)
qed

lemma col_dot_Suc: "col_dot L (Suc m) p q = col_dot L m p q + L ! m ! p * L ! m ! q"
  by (simp add: col_dot_def)

lemma col_dot_update_Suc:
  assumes "m < length L"
  shows "col_dot (L[m := R]) (Suc m) p q = col_dot L m p q + R ! p * R ! q"
proof -
  have "col_dot (L[m := R]) m p q = col_dot L m p q" by (rule col_dot_cong) simp
  with assms show ?thesis by (simp add: col_dot_Suc)
qed

lemma col_dot_commute: "col_dot L m p q = col_dot L m q p"
  by (simp add: col_dot_def mult.commute)

lemma col_dot_take: "m \<le> k \<Longrightarrow> col_dot (take k L) m p q = col_dot L m p q"
  by (rule col_dot_cong) simp

lemma pc_factor_inv_init:
  "wf_input n A \<Longrightarrow> exact_diag n A \<Longrightarrow> pc_factor_inv A 0 (pc_init n mi A)"
  by (auto simp: pc_factor_inv_def pc_init_def exact_diag_def)

text \<open>One iteration keeps the factorization invariant.\<close>

lemma pc_factor_inv_step:
  assumes inv: "pc_inv n mi m s" and fi: "pc_factor_inv A m s" and mm: "m < mi" "mi \<le> n"
    and st: "pc_elem_step n A m s = Inr s'"
  shows "pc_factor_inv A (Suc m) s'"
proof -
  note f = pc_elem_step_facts [OF inv mm st]
  obtain j where j: "m \<le> j" "j < n" "pc_perm s' = swap_perm (pc_perm s) m j"
    using f(1) by blast
  define p' where "p' = pc_perm s'"
  define P where "P = p' ! m"
  define d where "d = pc_diag s ! P"
  define R where "R = pc_L s' ! m"
  have perm: "is_perm n (pc_perm s)" and Ll: "length (pc_L s) = mi"
    using inv by (auto simp: pc_inv_def)
  have D: "\<forall>q\<in>set (drop m (pc_perm s)). pc_diag s ! q = ma_entry A q q - col_dot (pc_L s) m q q"
    and E: "\<forall>a<m. \<forall>q\<in>set (drop a (pc_perm s)).
              col_dot (pc_L s) m (pc_perm s ! a) q = ma_entry A (pc_perm s ! a) q"
    using fi by (auto simp: pc_factor_inv_def)
  have G: "col_dot (pc_L s') (Suc m) x y = col_dot (pc_L s) m x y + R ! x * R ! y" for x y
    using f(4) col_dot_update_Suc [of m "pc_L s" R x y] Ll mm by (simp add: R_def)
  have sd: "\<And>a. a \<le> m \<Longrightarrow> set (drop a p') = set (drop a (pc_perm s))"
    using swap_perm_set_drop_le [OF perm _ j(1,2)] j(3) by (simp add: p'_def)
  have pa: "\<And>a. a < m \<Longrightarrow> p' ! a = pc_perm s ! a"
    using j by (simp add: p'_def swap_perm_nth_other)
  have perm': "is_perm n p'" using perm j by (simp add: p'_def is_perm_swap_perm)
  have Pin: "P \<in> set (drop m (pc_perm s))"
    using sd [of m] perm' j by (auto simp: P_def is_perm_in_drop)
  have dP: "d = ma_entry A P P - col_dot (pc_L s) m P P" using D Pin by (simp add: d_def)
  have d0: "0 \<le> d" using f(3) by (simp add: d_def P_def p'_def)
  have RP: "R ! P = sqrt d" using f(6) by (simp add: R_def P_def d_def p'_def)
  have diag_new: "\<forall>q\<in>set (drop (Suc m) p').
      pc_diag s' ! q = ma_entry A q q - col_dot (pc_L s') (Suc m) q q"
  proof
    fix q assume "q \<in> set (drop (Suc m) p')"
    then obtain k where k: "Suc m \<le> k" "k < n" "q = p' ! k"
      using perm' by (auto simp: in_set_drop_iff is_perm_length)
    then have "q \<in> set (drop m (pc_perm s))"
      using sd [of m] perm' by (auto simp: is_perm_in_drop)
    with k f(12) D G show "pc_diag s' ! q = ma_entry A q q - col_dot (pc_L s') (Suc m) q q"
      by (simp add: p'_def R_def power2_eq_square)
  qed
  have rows_new: "\<forall>a<Suc m. \<forall>q\<in>set (drop a p').
      col_dot (pc_L s') (Suc m) (p' ! a) q = ma_entry A (p' ! a) q"
  proof (intro allI impI ballI)
    fix a q assume a: "a < Suc m" and q: "q \<in> set (drop a p')"
    show "col_dot (pc_L s') (Suc m) (p' ! a) q = ma_entry A (p' ! a) q"
    proof (cases "a < m")
      case True
      with q sd [of a] E pa f(7) G show ?thesis by (simp add: R_def p'_def)
    next
      case False
      with a have am: "a = m" by simp
      from q am obtain k where k: "m \<le> k" "k < n" "q = p' ! k"
        using perm' by (auto simp: in_set_drop_iff is_perm_length)
      show ?thesis
      proof (cases "k = m")
        case True
        with k am G RP dP d0 show ?thesis
          by (simp add: P_def real_sqrt_mult_self)
      next
        case False
        with k have mk: "m < k" "m + 1 < n" by auto
        then have dpos: "0 < d" using f(10) by (simp add: d_def P_def p'_def)
        have "R ! q = (ma_entry A P q - col_dot (pc_L s) m P q) / sqrt d"
          using f(11) [OF mk(2)] mk k
          by (simp add: R_def P_def d_def p'_def ma_entry_def)
        with am G RP dpos show ?thesis by (simp add: P_def)
      qed
    qed
  qed
  from diag_new rows_new show ?thesis by (simp add: pc_factor_inv_def p'_def)
qed

subsection \<open>The factorization invariant of the result\<close>

lemma list_all2_init_factor:
  "list_all (wf_input n) As \<Longrightarrow> list_all (exact_diag n) As \<Longrightarrow>
   list_all2 (\<lambda>A s. pc_inv n mi 0 s \<and> pc_factor_inv A 0 s) As (map (pc_init n mi) As)"
  by (auto simp: list_all2_map_right list_all_iff pc_inv_init pc_factor_inv_init)

lemma pivoted_cholesky_factor_rows:
  assumes ok: "pivoted_cholesky n As max_iter error_tol = Inr Ls"
    and wf: "list_all (wf_input n) As" and ex: "list_all (exact_diag n) As"
  shows "list_all2 (\<lambda>A L. \<exists>p. is_perm n p \<and> length L \<le> n \<and>
           (\<forall>a<length L. \<forall>q\<in>set (drop a p).
              col_dot L (length L) (p ! a) q = ma_entry A (p ! a) q)) As Ls"
proof -
  let ?mi = "nat (min max_iter (int n))"
  obtain m ss where loop: "pc_loop n As ?mi error_tol 0 (map (pc_init n ?mi) As) = Inr (m, ss)"
    and Ls: "Ls = map (\<lambda>s. take m (pc_L s)) ss"
    using ok by (rule pivoted_cholesky_Inr)
  have "m \<le> ?mi \<and> list_all2 (\<lambda>A s. pc_inv n ?mi m s \<and> pc_factor_inv A m s) As ss"
    using pc_loop_preserves [where I = "\<lambda>m A s. pc_inv n ?mi m s \<and> pc_factor_inv A m s",
        OF loop list_all2_init_factor [OF wf ex]] pc_inv_step pc_factor_inv_step
    by fastforce
  then have m: "m \<le> ?mi" and all: "list_all2 (\<lambda>A s. pc_inv n ?mi m s \<and> pc_factor_inv A m s) As ss"
    by auto
  have one: "\<exists>p. is_perm n p \<and> length (take m (pc_L s)) \<le> n \<and>
      (\<forall>a<length (take m (pc_L s)). \<forall>q\<in>set (drop a p).
         col_dot (take m (pc_L s)) (length (take m (pc_L s))) (p ! a) q = ma_entry A (p ! a) q)"
    if "pc_inv n ?mi m s" "pc_factor_inv A m s" for A s
  proof -
    have "length (take m (pc_L s)) = m" using that(1) m by (simp add: pc_inv_def)
    with that m show ?thesis
      by (intro exI [of _ "pc_perm s"]) (auto simp: pc_inv_def pc_factor_inv_def col_dot_take)
  qed
  from all show ?thesis unfolding Ls list_all2_map2
    by (rule list_all2_mono) (rule one, auto)
qed

text \<open>Exactness on the pivots, read with symmetry for the indices pivoted earlier.\<close>

lemma factor_rows_symmetric:
  assumes p: "is_perm n p" and m: "m \<le> n" and sym: "symmetric_input n A"
    and rows: "\<forall>a<m. \<forall>q\<in>set (drop a p). col_dot L m (p ! a) q = ma_entry A (p ! a) q"
    and a: "a < m" and q: "q < n"
  shows "col_dot L m (p ! a) q = ma_entry A (p ! a) q"
proof -
  obtain k where k: "k < n" "p ! k = q" using is_perm_surj [OF p q] by blast
  show ?thesis
  proof (cases "a \<le> k")
    case True
    with k p have "q \<in> set (drop a p)" by (metis is_perm_in_drop)
    with rows a show ?thesis by blast
  next
    case False
    then have "k < m" "p ! a \<in> set (drop k p)" using a m p by (auto simp: is_perm_in_drop)
    with rows k have "col_dot L m q (p ! a) = ma_entry A q (p ! a)" by auto
    moreover have "p ! a < n" using p a m by (simp add: is_perm_nth_less)
    ultimately show ?thesis using sym q by (simp add: col_dot_commute symmetric_input_def)
  qed
qed

subsection \<open>Correctness of the factor\<close>

text \<open>
  C2. For symmetric inputs with their true diagonal, every factor returned is exact on its
  pivot rows: there is a permutation \<open>p\<close> such that for each of the \<open>m\<close> pivots \<open>p[a]\<close> and
  every index \<open>q\<close>, \<open>(L\<^sup>T L)[p[a], q] = A[p[a], q]\<close>. The rank-\<open>m\<close> approximation
  reproduces the matrix on the rows and columns it pivoted on.
\<close>

theorem pivoted_cholesky_exact_on_pivots:
  assumes ok: "pivoted_cholesky n As max_iter error_tol = Inr Ls"
    and wf: "list_all (wf_input n) As" and ex: "list_all (exact_diag n) As"
    and sym: "list_all (symmetric_input n) As"
  shows "list_all2 (\<lambda>A L. \<exists>p. is_perm n p \<and>
           (\<forall>a<length L. \<forall>q<n. col_dot L (length L) (p ! a) q = ma_entry A (p ! a) q)) As Ls"
proof -
  have "list_all2 (\<lambda>A L. symmetric_input n A \<and> (\<exists>p. is_perm n p \<and> length L \<le> n \<and>
           (\<forall>a<length L. \<forall>q\<in>set (drop a p).
              col_dot L (length L) (p ! a) q = ma_entry A (p ! a) q))) As Ls"
    using pivoted_cholesky_factor_rows [OF ok wf ex] sym
    by (auto simp: list_all2_conv_all_nth list_all_length)
  then show ?thesis
    by (rule list_all2_mono) (blast intro: factor_rows_symmetric)
qed

theorem pivoted_cholesky_exact_on_pivots_witness:
  "pivoted_cholesky 3 [Dense [[4, 2, 0], [2, 2, 1], [0, 1, 3]]] 1 0 = Inr [[[2, 1, 0]]] \<and>
   list_all2 (\<lambda>A L. \<exists>p. is_perm 3 p \<and>
      (\<forall>a<length L. \<forall>q<3. col_dot L (length L) (p ! a) q = ma_entry A (p ! a) q))
    [Dense [[4, 2, 0], [2, 2, 1], [0, 1, 3]]] [[[2, 1, 0]]]"
proof -
  have ok: "pivoted_cholesky 3 [Dense [[4, 2, 0], [2, 2, 1], [0, 1, 3]]] 1 0 = Inr [[[2, 1, 0]]]"
    by (rule pc_example_3x3_rank1)
  have wf: "list_all (wf_input 3) [Dense [[4, 2, 0], [2, 2, 1], [0, 1, (3::real)]]]" by simp
  have ex: "list_all (exact_diag 3) [Dense [[4, 2, 0], [2, 2, 1], [0, 1, (3::real)]]]" by simp
  have sym: "list_all (symmetric_input 3) [Dense [[4, 2, 0], [2, 2, 1], [0, 1, (3::real)]]]"
    by (simp add: symmetric_input_def ma_entry_def All_less_Suc numeral_3_eq_3)
  show ?thesis using pivoted_cholesky_exact_on_pivots [OF ok wf ex sym] ok by simp
qed

text \<open>
  C1. Full-rank recovery (spec, section 8): when the factor has \<open>n\<close> rows, \<open>L\<^sup>T L = A\<close>.
\<close>

theorem pivoted_cholesky_full_rank:
  assumes ok: "pivoted_cholesky n As max_iter error_tol = Inr Ls"
    and wf: "list_all (wf_input n) As" and ex: "list_all (exact_diag n) As"
    and sym: "list_all (symmetric_input n) As"
  shows "list_all2 (\<lambda>A L. length L = n \<longrightarrow>
           (\<forall>i<n. \<forall>j<n. col_dot L n i j = ma_entry A i j)) As Ls"
proof -
  have "list_all2 (\<lambda>A L. symmetric_input n A \<and> (\<exists>p. is_perm n p \<and> length L \<le> n \<and>
           (\<forall>a<length L. \<forall>q\<in>set (drop a p).
              col_dot L (length L) (p ! a) q = ma_entry A (p ! a) q))) As Ls"
    using pivoted_cholesky_factor_rows [OF ok wf ex] sym
    by (auto simp: list_all2_conv_all_nth list_all_length)
  then show ?thesis
  proof (rule list_all2_mono, intro impI allI)
    fix A L i j
    assume h: "symmetric_input n A \<and> (\<exists>p. is_perm n p \<and> length L \<le> n \<and>
           (\<forall>a<length L. \<forall>q\<in>set (drop a p).
              col_dot L (length L) (p ! a) q = ma_entry A (p ! a) q))"
      and L: "length L = n" and i: "i < n" and j: "j < n"
    then obtain p where p: "is_perm n p"
      and rows: "\<forall>a<n. \<forall>q\<in>set (drop a p). col_dot L n (p ! a) q = ma_entry A (p ! a) q"
      by auto
    obtain a where a: "a < n" "p ! a = i" using is_perm_surj [OF p i] by blast
    from factor_rows_symmetric [OF p order_refl _ rows a(1) j] h a
    show "col_dot L n i j = ma_entry A i j" by simp
  qed
qed

theorem pivoted_cholesky_full_rank_witness:
  "pivoted_cholesky 2 [Dense [[4, 2], [2, 2]]] 2 0 = Inr [[[2, 1], [0, 1]]] \<and>
   list_all2 (\<lambda>A L. length L = 2 \<longrightarrow> (\<forall>i<2. \<forall>j<2. col_dot L 2 i j = ma_entry A i j))
     [Dense [[4, 2], [2, 2]]] [[[2, 1], [0, 1]]]"
proof -
  have ok: "pivoted_cholesky 2 [Dense [[4, 2], [2, 2]]] 2 0 = Inr [[[2, 1], [0, 1]]]"
    by (rule pc_example_2x2)
  have wf: "list_all (wf_input 2) [Dense [[4, 2], [2, (2::real)]]]" by simp
  have ex: "list_all (exact_diag 2) [Dense [[4, 2], [2, (2::real)]]]" by simp
  have sym: "list_all (symmetric_input 2) [Dense [[4, 2], [2, (2::real)]]]"
    by (simp add: symmetric_input_def ma_entry_def All_less_Suc numeral_2_eq_2)
  show ?thesis using pivoted_cholesky_full_rank [OF ok wf ex sym] ok by simp
qed
end
