(* ===== verification/PC_PSD.thy ===== *)
theory PC_PSD
  imports PC_Factor
begin

text \<open>
  Positive semi-definite inputs. For a single symmetric positive semi-definite matrix
  with its true diagonal and \<open>error_tol \<ge> 0\<close>, \<open>pivoted_cholesky\<close> never produces a
  non-finite value, and the L1 error it tracks never grows. The argument is the classical
  one: after \<open>m\<close> iterations the residual \<open>A - L\<^sup>T L\<close> restricted to the unpivoted indices
  (the Schur complement, \<open>schur\<close>) is positive semi-definite, so its diagonal, which the
  loop keeps in \<open>matrix_diag\<close>, is non-negative, and a zero largest entry means a zero error.
\<close>

subsection \<open>Definitions\<close>

text \<open>
  \<open>S\<close> is positive semi-definite on the finite index set \<open>U\<close>: its quadratic form over
  \<open>U\<close> is non-negative. It is a hypothesis on inputs, never computed by the code.
\<close>

definition psd_on :: "(nat \<Rightarrow> nat \<Rightarrow> real) \<Rightarrow> nat set \<Rightarrow> bool" where
  "psd_on S U \<longleftrightarrow> (\<forall>x. 0 \<le> (\<Sum>i\<in>U. \<Sum>j\<in>U. x i * S i j * x j))"

text \<open>The residual \<open>A - L\<^sup>T L\<close> after \<open>m\<close> rows of \<open>L\<close>, entrywise.\<close>

definition schur :: "matrix_input \<Rightarrow> mat \<Rightarrow> nat \<Rightarrow> nat \<Rightarrow> nat \<Rightarrow> real" where
  "schur A L m p q = ma_entry A p q - col_dot L m p q"

definition psd_input :: "nat \<Rightarrow> matrix_input \<Rightarrow> bool" where
  "psd_input n A \<longleftrightarrow> psd_on (ma_entry A) {..<n}"

text \<open>
  The Schur complement over the unpivoted indices is positive semi-definite, and while
  indices remain, \<open>errors\<close> is the L1 norm of their diagonal (line 79).
\<close>

definition pc_psd_inv :: "nat \<Rightarrow> matrix_input \<Rightarrow> nat \<Rightarrow> pc_state \<Rightarrow> bool" where
  "pc_psd_inv n A m s \<longleftrightarrow>
     psd_on (schur A (pc_L s) m) (set (drop m (pc_perm s))) \<and>
     (m < n \<longrightarrow> pc_err s = l1_norm (gather (pc_diag s) (drop m (pc_perm s))))"

text \<open>The three invariants together, for one input, and their preservation.\<close>

definition pc_psd_state :: "nat \<Rightarrow> nat \<Rightarrow> matrix_input \<Rightarrow> nat \<Rightarrow> pc_state \<Rightarrow> bool" where
  "pc_psd_state n mi A m s \<longleftrightarrow> pc_inv n mi m s \<and> pc_factor_inv A m s \<and> pc_psd_inv n A m s"

subsection \<open>Quadratic forms on a finite index set\<close>

lemma psd_on_cong:
  assumes "psd_on S U" and "\<And>i j. i \<in> U \<Longrightarrow> j \<in> U \<Longrightarrow> S' i j = S i j"
  shows "psd_on S' U"
  using assms unfolding psd_on_def by (simp cong: sum.cong)

lemma psd_on_empty [simp]: "psd_on S {}"
  by (simp add: psd_on_def)

lemma mult_indicator:
  "(a::real) * (if c then 1 else 0) = (if c then a else 0)"
  "(if c then 1 else 0) * (a::real) = (if c then a else 0)"
  by simp_all

lemma psd_on_diag:
  assumes "psd_on S U" "finite U" "q \<in> U"
  shows "0 \<le> S q q"
proof -
  have "0 \<le> (\<Sum>i\<in>U. \<Sum>j\<in>U. (if i = q then 1 else 0) * S i j * (if j = q then 1 else 0))"
    using spec [OF assms(1) [unfolded psd_on_def], of "\<lambda>i. if i = q then 1 else 0"] by simp
  also have "\<dots> = (\<Sum>i\<in>U. if i = q then S i q else 0)"
    using assms(2,3) by (intro sum.cong) (simp_all add: mult_indicator sum.delta)
  also have "\<dots> = S q q"
    using assms(2,3) by (simp add: sum.delta)
  finally show ?thesis .
qed

lemma quad_insert:
  fixes S :: "nat \<Rightarrow> nat \<Rightarrow> real"
  assumes fin: "finite U" and p: "p \<notin> U"
    and sym: "\<And>j. j \<in> U \<Longrightarrow> S j p = S p j"
  shows "(\<Sum>i\<in>insert p U. \<Sum>j\<in>insert p U. z i * S i j * z j) =
         z p * S p p * z p + 2 * z p * (\<Sum>j\<in>U. S p j * z j) + (\<Sum>i\<in>U. \<Sum>j\<in>U. z i * S i j * z j)"
proof -
  have "(\<Sum>i\<in>U. z i * S i p * z p) = (\<Sum>i\<in>U. z p * (S p i * z i))"
  proof (rule sum.cong)
    fix i assume "i \<in> U"
    then have "S i p = S p i" by (rule sym)
    then show "z i * S i p * z p = z p * (S p i * z i)" by (simp add: mult_ac)
  qed simp
  then have a: "(\<Sum>i\<in>U. z i * S i p * z p) = z p * (\<Sum>j\<in>U. S p j * z j)"
    by (simp add: sum_distrib_left)
  have b: "(\<Sum>j\<in>U. z p * S p j * z j) = z p * (\<Sum>j\<in>U. S p j * z j)"
    by (simp add: sum_distrib_left mult_ac)
  show ?thesis
    using fin p by (simp add: sum.distrib a b)
qed

lemma quad_complete_square:
  "0 < (d::real) \<Longrightarrow> (- b / d) * d * (- b / d) + 2 * (- b / d) * b + Q = Q - b * b / d"
  by (simp add: field_simps)

lemma quad_rank_one_update:
  "(\<Sum>i\<in>V. \<Sum>j\<in>V. x i * (S i j - c i * c j / d) * x j) =
   (\<Sum>i\<in>V. \<Sum>j\<in>V. x i * S i j * x j) - (\<Sum>j\<in>V. c j * x j) * (\<Sum>j\<in>V. c j * x j) / (d::real)"
proof -
  have "(\<Sum>i\<in>V. \<Sum>j\<in>V. x i * (S i j - c i * c j / d) * x j) =
        (\<Sum>i\<in>V. \<Sum>j\<in>V. x i * S i j * x j - (c i * x i) * (c j * x j) / d)"
    by (simp add: algebra_simps)
  also have "\<dots> = (\<Sum>i\<in>V. \<Sum>j\<in>V. x i * S i j * x j) - (\<Sum>i\<in>V. \<Sum>j\<in>V. (c i * x i) * (c j * x j)) / d"
    by (simp add: sum_subtractf sum_divide_distrib)
  also have "(\<Sum>i\<in>V. \<Sum>j\<in>V. (c i * x i) * (c j * x j)) = (\<Sum>j\<in>V. c j * x j) * (\<Sum>j\<in>V. c j * x j)"
    by (simp add: sum_product)
  finally show ?thesis .
qed

lemma psd_on_schur_step:
  assumes psd: "psd_on S U" and fin: "finite U" and p: "p \<in> U"
    and sym: "\<And>i j. i \<in> U \<Longrightarrow> j \<in> U \<Longrightarrow> S j i = S i j" and d: "0 < S p p"
  shows "psd_on (\<lambda>i j. S i j - S p i * S p j / S p p) (U - {p})"
  unfolding psd_on_def
proof
  fix x :: "nat \<Rightarrow> real"
  let ?V = "U - {p}"
  let ?b = "\<Sum>j\<in>?V. S p j * x j"
  let ?Q = "\<Sum>i\<in>?V. \<Sum>j\<in>?V. x i * S i j * x j"
  define z where "z = x(p := - ?b / S p p)"
  have zV: "\<And>i. i \<in> ?V \<Longrightarrow> z i = x i" by (simp add: z_def)
  have bz: "(\<Sum>j\<in>?V. S p j * z j) = ?b" by (rule sum.cong) (simp_all add: zV)
  have Qz: "(\<Sum>i\<in>?V. \<Sum>j\<in>?V. z i * S i j * z j) = ?Q"
    by (rule sum.cong, simp, rule sum.cong) (simp_all add: zV)
  have "0 \<le> (\<Sum>i\<in>insert p ?V. \<Sum>j\<in>insert p ?V. z i * S i j * z j)"
    using psd p by (simp add: psd_on_def insert_absorb)
  also have "\<dots> = z p * S p p * z p + 2 * z p * ?b + ?Q"
    using quad_insert [of ?V p S z] fin sym p bz Qz by simp
  also have "\<dots> = ?Q - ?b * ?b / S p p"
    using quad_complete_square [OF d] by (simp add: z_def)
  also have "\<dots> = (\<Sum>i\<in>?V. \<Sum>j\<in>?V. x i * (S i j - S p i * S p j / S p p) * x j)"
    by (simp add: quad_rank_one_update)
  finally show "0 \<le> (\<Sum>i\<in>?V. \<Sum>j\<in>?V. x i * (S i j - S p i * S p j / S p p) * x j)" .
qed

subsection \<open>The Schur complement invariant\<close>

lemma gather_upt_length [simp]: "gather xs [0..<length xs] = xs"
  by (simp add: gather_def map_nth)

lemma pc_psd_inv_init:
  assumes "wf_input n A" "psd_input n A"
  shows "pc_psd_inv n A 0 (pc_init n mi A)"
proof -
  have "schur A L 0 = ma_entry A" for L by (simp add: schur_def fun_eq_iff)
  moreover have "set [0..<n] = {..<n}" by auto
  moreover have "gather (ma_diag A) [0..<n] = ma_diag A"
    using gather_upt_length [of "ma_diag A"] assms(1) by simp
  ultimately show ?thesis using assms(2) by (simp add: pc_psd_inv_def pc_init_def psd_input_def)
qed

lemma pc_diag_nonneg:
  assumes "pc_factor_inv A m s" "pc_psd_inv n A m s" "q \<in> set (drop m (pc_perm s))"
  shows "0 \<le> pc_diag s ! q"
proof -
  have "pc_diag s ! q = schur A (pc_L s) m q q"
    using assms(1,3) by (simp add: pc_factor_inv_def schur_def)
  also have "0 \<le> \<dots>"
    using assms(2,3) by (intro psd_on_diag [of _ "set (drop m (pc_perm s))"]) (simp_all add: pc_psd_inv_def)
  finally show ?thesis .
qed

lemma schur_update_Suc:
  "m < length L \<Longrightarrow> schur A (L[m := R]) (Suc m) x y = schur A L m x y - R ! x * R ! y"
  by (simp add: schur_def col_dot_update_Suc)

lemma schur_symmetric:
  "symmetric_input n A \<Longrightarrow> i < n \<Longrightarrow> j < n \<Longrightarrow> schur A L m j i = schur A L m i j"
  by (simp add: schur_def symmetric_input_def col_dot_commute)

lemma drop_perm_split:
  assumes "is_perm n p" "m < n"
  shows "drop m p = p ! m # drop (Suc m) p" "p ! m \<notin> set (drop (Suc m) p)"
    "set (drop (Suc m) p) = set (drop m p) - {p ! m}"
proof -
  show dm: "drop m p = p ! m # drop (Suc m) p"
    using assms by (simp add: Cons_nth_drop_Suc is_perm_length)
  have "distinct (drop m p)" using assms(1) by (simp add: is_perm_distinct)
  with dm show nin: "p ! m \<notin> set (drop (Suc m) p)" by (metis distinct.simps(2))
  from dm nin show "set (drop (Suc m) p) = set (drop m p) - {p ! m}"
    by (metis Diff_insert_absorb list.simps(15))
qed

text \<open>One iteration keeps the Schur complement positive semi-definite.\<close>

lemma pc_psd_inv_step:
  assumes inv: "pc_inv n mi m s" and fi: "pc_factor_inv A m s" and pv: "pc_psd_inv n A m s"
    and sym: "symmetric_input n A" and mm: "m < mi" "mi \<le> n"
    and st: "pc_elem_step n A m s = Inr s'"
  shows "pc_psd_inv n A (Suc m) s'"
proof -
  note f = pc_elem_step_facts [OF inv mm st]
  obtain j where j: "m \<le> j" "j < n" "pc_perm s' = swap_perm (pc_perm s) m j"
    using f(1) by blast
  define p' where "p' = pc_perm s'"
  define P where "P = p' ! m"
  define d where "d = pc_diag s ! P"
  define R where "R = pc_L s' ! m"
  define U where "U = set (drop m p')"
  have perm: "is_perm n (pc_perm s)" and Ll: "length (pc_L s) = mi"
    using inv by (auto simp: pc_inv_def)
  have perm': "is_perm n p'" using perm j by (simp add: p'_def is_perm_swap_perm)
  have U: "set (drop m (pc_perm s)) = U"
    using swap_perm_set_drop_le [OF perm _ j(1,2)] j(3) by (simp add: U_def p'_def)
  have Un: "\<And>i. i \<in> U \<Longrightarrow> i < n"
    using perm' by (auto simp: U_def is_perm_set dest: in_set_dropD)
  have PU: "P \<in> U" and U': "set (drop (Suc m) p') = U - {P}"
  proof -
    have mn: "m < n" using mm by simp
    show "P \<in> U" unfolding U_def P_def drop_perm_split(1) [OF perm' mn] by simp
    show "set (drop (Suc m) p') = U - {P}"
      unfolding U_def P_def by (rule drop_perm_split(3) [OF perm' mn])
  qed
  have psd: "psd_on (schur A (pc_L s) m) U" using pv U by (simp add: pc_psd_inv_def)
  have G: "schur A (pc_L s') (Suc m) x y = schur A (pc_L s) m x y - R ! x * R ! y" for x y
    using f(4) schur_update_Suc [of m "pc_L s" A R x y] Ll mm by (simp add: R_def)
  have psd': "psd_on (schur A (pc_L s') (Suc m)) (set (drop (Suc m) p'))"
  proof (cases "m + 1 < n")
    case True
    have dP: "d = schur A (pc_L s) m P P"
      using fi PU U by (auto simp: pc_factor_inv_def schur_def d_def)
    have dpos: "0 < d" using f(10) [OF True] by (simp add: d_def P_def p'_def)
    have Ri: "R ! i = schur A (pc_L s) m P i / sqrt d" if "i \<in> U - {P}" for i
    proof -
      from that U' have "i \<in> set (drop (Suc m) p')" by simp
      then obtain k where k: "Suc m \<le> k" "k < n" "i = p' ! k"
        using perm' by (auto simp: in_set_drop_iff is_perm_length)
      then show ?thesis using f(11) [OF True] k
        by (simp add: R_def P_def d_def p'_def schur_def ma_entry_def)
    qed
    have "psd_on (\<lambda>i j. schur A (pc_L s) m i j - schur A (pc_L s) m P i * schur A (pc_L s) m P j /
                   schur A (pc_L s) m P P) (U - {P})"
      using dpos dP Un by (intro psd_on_schur_step [OF psd _ PU])
        (simp_all add: U_def schur_symmetric [OF sym])
    then show ?thesis unfolding U'
    proof (rule psd_on_cong)
      fix i j assume ij: "i \<in> U - {P}" "j \<in> U - {P}"
      have sq: "sqrt d * sqrt d = d" using dpos by simp
      have RR: "R ! i * R ! j = schur A (pc_L s) m P i * schur A (pc_L s) m P j / (sqrt d * sqrt d)"
        using Ri [OF ij(1)] Ri [OF ij(2)] by simp
      show "schur A (pc_L s') (Suc m) i j =
          schur A (pc_L s) m i j - schur A (pc_L s) m P i * schur A (pc_L s) m P j /
          schur A (pc_L s) m P P"
        unfolding G RR sq by (simp only: dP)
    qed
  next
    case False
    then have "drop (Suc m) p' = []" using perm' by (simp add: is_perm_length)
    then show ?thesis by simp
  qed
  have err': "Suc m < n \<Longrightarrow> pc_err s' = l1_norm (gather (pc_diag s') (drop (Suc m) p'))"
    using f(13) by (simp add: p'_def)
  from psd' err' show ?thesis by (simp add: pc_psd_inv_def p'_def)
qed

subsection \<open>No non-finite value on a positive semi-definite input\<close>

text \<open>The two ways an iteration fails: a negative pivot value, or a zero one with indices left.\<close>

lemma pc_elem_step_Inl:
  assumes st: "pc_elem_step n A m s = Inl e" and inv: "pc_inv n mi m s" and mm: "m < mi" "mi \<le> n"
  obtains v j where "torch_max (gather (pc_diag s) (drop m (pc_perm s))) = Some (v, j)"
    "v < 0 \<or> (m + 1 < n \<and> v = 0)"
proof -
  have perm: "is_perm n (pc_perm s)" and row: "length (pc_L s ! m) = n"
    using inv mm by (auto simp: pc_inv_def)
  then have "gather (pc_diag s) (drop m (pc_perm s)) \<noteq> []" using mm by (simp add: is_perm_length)
  then obtain v j where tm: "torch_max (gather (pc_diag s) (drop m (pc_perm s))) = Some (v, j)"
    by (cases "torch_max (gather (pc_diag s) (drop m (pc_perm s)))") auto
  have "j + m < n" using torch_max_spec(1) [OF tm] perm by (simp add: is_perm_length)
  then have pim: "swap_perm (pc_perm s) m (j + m) ! m < n"
    using perm mm by (simp add: is_perm_nth_less is_perm_swap_perm)
  have "v < 0 \<or> (m + 1 < n \<and> v = 0)"
    using st tm pim row by (auto simp: pc_elem_step_def Let_def split: if_splits)
  with tm show thesis by (rule that)
qed

lemma l1_norm_zero: "\<forall>y\<in>set xs. y = 0 \<Longrightarrow> l1_norm xs = 0"
  by (induction xs) (auto simp: l1_norm_def)

text \<open>
  Under the invariants, an iteration the loop guard lets run succeeds: the largest
  remaining diagonal value is non-negative, and it is zero only when the error is zero,
  which the guard \<open>errors > error_tol \<ge> 0\<close> excludes.
\<close>

lemma pc_elem_step_psd_Inr:
  assumes inv: "pc_inv n mi m s" and fi: "pc_factor_inv A m s" and pv: "pc_psd_inv n A m s"
    and mm: "m < mi" "mi \<le> n" and go: "error_tol < pc_err s" and tol: "0 \<le> error_tol"
  shows "\<exists>s'. pc_elem_step n A m s = Inr s'"
proof (cases "pc_elem_step n A m s")
  case (Inl e)
  let ?ds = "gather (pc_diag s) (drop m (pc_perm s))"
  obtain v j where tm: "torch_max ?ds = Some (v, j)" and c: "v < 0 \<or> (m + 1 < n \<and> v = 0)"
    using pc_elem_step_Inl [OF Inl inv mm] by blast
  have nonneg: "\<forall>y\<in>set ?ds. 0 \<le> y"
    using pc_diag_nonneg [OF fi pv] by (auto simp: gather_def)
  have "v \<in> set ?ds" using torch_max_spec(1,2) [OF tm] by (metis nth_mem)
  with nonneg c have v0: "v = 0" by auto
  have "\<forall>y\<in>set ?ds. y = 0"
    using torch_max_spec(3) [OF tm] nonneg v0 by (auto intro: antisym)
  then have "l1_norm ?ds = 0" by (rule l1_norm_zero)
  with pv mm have "pc_err s = 0" by (simp add: pc_psd_inv_def)
  with go tol show ?thesis by simp
qed simp

text \<open>
  The loop returns when every iteration it lets run succeeds and keeps an invariant; the
  batch must be non-empty, since \<open>torch.max\<close> of the empty \<open>errors\<close> raises.
\<close>

lemma pc_loop_total:
  assumes "list_all2 (I m) As ss" "As \<noteq> []" "m \<le> mi"
    and step: "\<And>m ss e j. m < mi \<Longrightarrow> list_all2 (I m) As ss \<Longrightarrow>
       torch_max (map pc_err ss) = Some (e, j) \<Longrightarrow> tol < e \<Longrightarrow>
       \<exists>ss'. pc_batch_step n As m ss = Inr ss' \<and> list_all2 (I (Suc m)) As ss'"
  shows "\<exists>r. pc_loop n As mi tol m ss = Inr r"
  using assms
proof (induction n As mi tol m ss rule: pc_loop.induct)
  case (1 n As mi tol m ss)
  show ?case
  proof (cases "m < mi")
    case False
    then show ?thesis by (simp add: pc_loop.simps [of n As mi tol m ss])
  next
    case True
    have "ss \<noteq> []" using "1.prems"(1,2) by (auto simp: list_all2_Nil2)
    then obtain e j where tm: "torch_max (map pc_err ss) = Some (e, j)"
      by (cases "torch_max (map pc_err ss)") auto
    show ?thesis
    proof (cases "tol < e")
      case False
      with True tm show ?thesis by (simp add: pc_loop.simps [of n As mi tol m ss])
    next
      case go: True
      obtain ss' where b: "pc_batch_step n As m ss = Inr ss'" and I': "list_all2 (I (Suc m)) As ss'"
        using "1.prems"(4) [OF True "1.prems"(1) tm go] by blast
      have "\<exists>r. pc_loop n As mi tol (m + 1) ss' = Inr r"
      proof (rule "1.IH" [OF True tm refl go b _ "1.prems"(2) _ "1.prems"(4)])
        show "list_all2 (I (m + 1)) As ss'" using I' by simp
        show "m + 1 \<le> mi" using True by simp
      qed
      with True tm go b show ?thesis by (simp add: pc_loop.simps [of n As mi tol m ss])
    qed
  qed
qed

lemma pc_psd_state_init:
  "wf_input n A \<Longrightarrow> exact_diag n A \<Longrightarrow> psd_input n A \<Longrightarrow> pc_psd_state n mi A 0 (pc_init n mi A)"
  by (simp add: pc_psd_state_def pc_inv_init pc_factor_inv_init pc_psd_inv_init)

lemma pc_psd_state_step:
  "pc_psd_state n mi A m s \<Longrightarrow> symmetric_input n A \<Longrightarrow> m < mi \<Longrightarrow> mi \<le> n \<Longrightarrow>
   pc_elem_step n A m s = Inr s' \<Longrightarrow> pc_psd_state n mi A (Suc m) s'"
  unfolding pc_psd_state_def
  using pc_inv_step pc_factor_inv_step pc_psd_inv_step by blast

lemma l1_norm_gather_mono:
  "(\<And>q. q \<in> set ks \<Longrightarrow> \<bar>d' ! q\<bar> \<le> \<bar>d ! q\<bar>) \<Longrightarrow> l1_norm (gather d' ks) \<le> l1_norm (gather d ks)"
  by (induction ks) (auto simp: l1_norm_def gather_def intro: add_mono)

lemma l1_norm_gather_Cons: "l1_norm (gather d (q # ks)) = \<bar>d ! q\<bar> + l1_norm (gather d ks)"
  by (simp add: l1_norm_def gather_def)

lemma l1_norm_gather_perm:
  "distinct ks \<Longrightarrow> distinct ks' \<Longrightarrow> set ks = set ks' \<Longrightarrow> l1_norm (gather d ks) = l1_norm (gather d ks')"
  by (intro l1_norm_mset) (simp add: gather_def set_eq_iff_mset_eq_distinct)

text \<open>
  The trace of the residual \<open>A - L\<^sup>T L\<close> is the error the loop tracks: it vanishes on the
  pivoted indices, and on the others it is the non-negative remaining diagonal.
\<close>

lemma pc_trace_residual:
  assumes st: "pc_psd_state n mi A m s" and mn: "m < n"
  shows "(\<Sum>q<n. schur A (pc_L s) m q q) = pc_err s"
proof -
  have perm: "is_perm n (pc_perm s)" and fi: "pc_factor_inv A m s" and pv: "pc_psd_inv n A m s"
    using st by (auto simp: pc_psd_state_def pc_inv_def)
  define p where "p = pc_perm s"
  define f where "f q = schur A (pc_L s) m q q" for q
  have "(\<Sum>q<n. f q) = sum_list (map f p)"
    using perm by (simp add: p_def sum_list_distinct_conv_sum_set is_perm_distinct is_perm_set)
  also have "\<dots> = sum_list (map f (take m p)) + sum_list (map f (drop m p))"
    by (metis append_take_drop_id map_append sum_list_append)
  also have "sum_list (map f (take m p)) = 0"
  proof -
    have "f q = 0" if "q \<in> set (take m p)" for q
    proof -
      from that obtain a where a: "a < m" "a < length p" "q = p ! a"
        by (auto simp: in_set_conv_nth)
      then have "q \<in> set (drop a p)" by (auto simp: in_set_drop_iff)
      with fi a show ?thesis by (simp add: pc_factor_inv_def f_def schur_def p_def)
    qed
    then have "map f (take m p) = map (\<lambda>_. 0) (take m p)" by (intro map_cong) auto
    then show ?thesis by (simp only: sum_list_0)
  qed
  also have "sum_list (map f (drop m p)) = l1_norm (gather (pc_diag s) (drop m p))"
  proof -
    have "f q = \<bar>pc_diag s ! q\<bar>" if "q \<in> set (drop m p)" for q
      using that fi pc_diag_nonneg [OF fi pv, of q]
      by (simp add: pc_factor_inv_def f_def schur_def p_def)
    then show ?thesis
      by (simp add: l1_norm_def gather_def comp_def cong: map_cong)
  qed
  also have "\<dots> = pc_err s" using pv mn by (simp add: pc_psd_inv_def p_def)
  finally show ?thesis by (simp add: f_def)
qed

text \<open>The running example \<open>[[4, 2], [2, 2]]\<close> is symmetric positive definite.\<close>

lemma example_2x2_psd:
  "wf_input 2 (Dense [[4, 2], [2, 2]])" "symmetric_input 2 (Dense [[4, 2], [2, 2]])"
  "psd_input 2 (Dense [[4, 2], [2, 2]])"
proof -
  show "wf_input 2 (Dense [[4, 2], [2, 2]])" by simp
  show "symmetric_input 2 (Dense [[4, 2], [2, 2]])"
    by (simp add: symmetric_input_def ma_entry_def All_less_Suc numeral_2_eq_2)
  show "psd_input 2 (Dense [[4, 2], [2, 2]])"
    unfolding psd_input_def psd_on_def
  proof
    fix x :: "nat \<Rightarrow> real"
    have "0 \<le> (2 * x 0 + x 1)\<^sup>2 + (x 1)\<^sup>2" by simp
    then show "0 \<le> (\<Sum>i<2. \<Sum>j<2. x i * ma_entry (Dense [[4, 2], [2, 2]]) i j * x j)"
      by (simp add: numeral_2_eq_2 ma_entry_def power2_eq_square algebra_simps)
  qed
qed

subsection \<open>Claims\<close>

text \<open>
  C13. On a single symmetric positive semi-definite matrix with its true diagonal, with
  \<open>max_iter \<ge> 0\<close> and \<open>error_tol \<ge> 0\<close>, \<open>pivoted_cholesky\<close> returns a factor: no
  iteration takes the square root of a negative value or divides by a zero pivot.
\<close>

theorem pivoted_cholesky_psd_succeeds:
  assumes wf: "wf_input n A" and ex: "exact_diag n A" and sym: "symmetric_input n A"
    and psd: "psd_input n A" and mi: "0 \<le> max_iter" and tol: "0 \<le> error_tol"
  shows "\<exists>L. pivoted_cholesky n [A] max_iter error_tol = Inr [L]"
proof -
  let ?mi = "nat (min max_iter (int n))"
  define I where "I = (\<lambda>m A' s. A' = A \<and> pc_psd_state n ?mi A m s)"
  have min: "?mi \<le> n" by simp
  have init: "list_all2 (I 0) [A] (map (pc_init n ?mi) [A])"
    using pc_psd_state_init [OF wf ex psd] by (simp add: I_def)
  have step: "\<exists>ss'. pc_batch_step n [A] m ss = Inr ss' \<and> list_all2 (I (Suc m)) [A] ss'"
    if m: "m < ?mi" and Im: "list_all2 (I m) [A] ss"
      and tm: "torch_max (map pc_err ss) = Some (e, j)" and go: "error_tol < e" for m ss e j
  proof -
    obtain s where ss: "ss = [s]" and Is: "pc_psd_state n ?mi A m s"
      using Im by (auto simp: I_def list_all2_Cons1)
    have "e = pc_err s" using tm ss by simp
    then obtain s' where st: "pc_elem_step n A m s = Inr s'"
      using pc_elem_step_psd_Inr [of n ?mi m s A error_tol] Is m min go tol
      by (auto simp: pc_psd_state_def)
    have "pc_psd_state n ?mi A (Suc m) s'"
      using pc_psd_state_step [OF Is sym m min st] .
    with st ss show ?thesis by (simp add: I_def)
  qed
  obtain m' ss' where loop: "pc_loop n [A] ?mi error_tol 0 (map (pc_init n ?mi) [A]) = Inr (m', ss')"
    using pc_loop_total [OF init _ _ step] by fastforce
  have "list_all2 (\<lambda>_ _. True) [A] ss'"
    using pc_loop_preserves [where I = "\<lambda>_ _ _. True", OF loop] by simp
  then obtain s1 where ss': "ss' = [s1]" by (auto simp: list_all2_Cons1)
  have nn: "\<not> min max_iter (int n) < 0" using mi by simp
  show ?thesis
    unfolding pivoted_cholesky_def Let_def if_not_P [OF nn] loop ss' by simp
qed

theorem pivoted_cholesky_psd_succeeds_witness:
  "psd_input 2 (Dense [[4, 2], [2, 2]]) \<and>
   (\<exists>L. pivoted_cholesky 2 [Dense [[4, 2], [2, 2]]] 2 0 = Inr [L])"
proof -
  note ex = example_2x2_psd
  from ex(3) pivoted_cholesky_psd_succeeds [OF ex(1) _ ex(2,3), of 2 0] show ?thesis by simp
qed

text \<open>
  C14. On a positive semi-definite input the error is non-increasing (the spec's
  section 8, which \<open>pc_error_grows_example\<close> shows false for indefinite input): an iteration that leaves indices
  unpivoted makes \<open>errors\<close> no larger, since every remaining diagonal entry stays
  non-negative and only loses a square.
\<close>

theorem pc_psd_error_nonincreasing:
  assumes st0: "pc_psd_state n mi A m s" and sym: "symmetric_input n A"
    and mm: "m < mi" "mi \<le> n" and st: "pc_elem_step n A m s = Inr s'" and more: "Suc m < n"
  shows "pc_err s' \<le> pc_err s"
proof -
  have inv: "pc_inv n mi m s" and pv: "pc_psd_inv n A m s"
    using st0 by (auto simp: pc_psd_state_def)
  note f = pc_elem_step_facts [OF inv mm st]
  obtain j where j: "m \<le> j" "j < n" "pc_perm s' = swap_perm (pc_perm s) m j"
    using f(1) by blast
  define p' where "p' = pc_perm s'"
  have perm: "is_perm n (pc_perm s)" using inv by (simp add: pc_inv_def)
  have perm': "is_perm n p'" using perm j by (simp add: p'_def is_perm_swap_perm)
  have mn: "m < n" and more': "m + 1 < n" using more by simp_all
  have s2: "pc_psd_state n mi A (Suc m) s'" by (rule pc_psd_state_step [OF st0 sym mm st])
  have "pc_err s = l1_norm (gather (pc_diag s) (drop m (pc_perm s)))"
    using pv mn by (simp add: pc_psd_inv_def)
  also have "\<dots> = l1_norm (gather (pc_diag s) (drop m p'))"
    using swap_perm_set_drop_le [OF perm _ j(1,2)] j(3) perm perm'
    by (intro l1_norm_gather_perm) (simp_all add: p'_def is_perm_distinct)
  also have "\<dots> = \<bar>pc_diag s ! (p' ! m)\<bar> + l1_norm (gather (pc_diag s) (drop (Suc m) p'))"
    unfolding drop_perm_split(1) [OF perm' mn] by (rule l1_norm_gather_Cons)
  finally have e: "l1_norm (gather (pc_diag s) (drop (Suc m) p')) \<le> pc_err s" by simp
  have "l1_norm (gather (pc_diag s') (drop (Suc m) p')) \<le> l1_norm (gather (pc_diag s) (drop (Suc m) p'))"
  proof (rule l1_norm_gather_mono)
    fix q assume q: "q \<in> set (drop (Suc m) p')"
    then obtain k where k: "Suc m \<le> k" "k < n" "q = p' ! k"
      using perm' by (auto simp: in_set_drop_iff is_perm_length)
    have "0 \<le> pc_diag s' ! q"
      using s2 q by (intro pc_diag_nonneg [of A "Suc m" s' n]) (simp_all add: pc_psd_state_def p'_def)
    moreover have "pc_diag s' ! q = pc_diag s ! q - (pc_L s' ! m ! q)\<^sup>2"
      using f(12) [OF more'] k by (simp add: p'_def)
    ultimately have "0 \<le> pc_diag s' ! q" "pc_diag s' ! q \<le> pc_diag s ! q" by simp_all
    then show "\<bar>pc_diag s' ! q\<bar> \<le> \<bar>pc_diag s ! q\<bar>"
      by (metis abs_of_nonneg abs_ge_self order_trans)
  qed
  with e f(13) [OF more'] show ?thesis by (simp add: p'_def)
qed

theorem pc_psd_error_nonincreasing_witness:
  "pc_psd_state 2 2 (Dense [[4, 2], [2, 2]]) 0 (pc_init 2 2 (Dense [[4, 2], [2, 2]])) \<and>
   pc_elem_step 2 (Dense [[4, 2], [2, 2]]) 0 (pc_init 2 2 (Dense [[4, 2], [2, 2]])) =
     Inr \<lparr>pc_diag = [4, 1], pc_perm = [0, 1], pc_L = [[2, 1], [0, 0]], pc_err = 1\<rparr> \<and>
   (1::real) \<le> pc_err (pc_init 2 2 (Dense [[4, 2], [2, 2]]))"
proof -
  note ex = example_2x2_psd
  have i: "pc_psd_state 2 2 (Dense [[4, 2], [2, 2]]) 0 (pc_init 2 2 (Dense [[4, 2], [2, 2]]))"
    using pc_psd_state_init [OF ex(1) _ ex(3)] by simp
  have st: "pc_elem_step 2 (Dense [[4, 2], [2, 2]]) 0 (pc_init 2 2 (Dense [[4, 2], [2, 2]])) =
     Inr \<lparr>pc_diag = [4, 1], pc_perm = [0, 1], pc_L = [[2, 1], [0, 0]], pc_err = 1\<rparr>"
    by (simp add: pc_eval numeral_2_eq_2)
  from pc_psd_error_nonincreasing [OF i ex(2) _ _ st] i st show ?thesis by simp
qed

text \<open>
  C17. The greedy pivoting bounds the residual trace (spec, section 4.1): when the loop on a
  single positive semi-definite input stops before \<open>min(max_iter, n)\<close> iterations, the
  trace of \<open>A - L\<^sup>T L\<close> for the returned \<open>L\<close> is at most \<open>error_tol\<close>.
\<close>

theorem pivoted_cholesky_psd_trace_bound:
  assumes wf: "wf_input n A" and ex: "exact_diag n A" and sym: "symmetric_input n A"
    and psd: "psd_input n A" and ok: "pivoted_cholesky n [A] max_iter error_tol = Inr [L]"
    and early: "int (length L) < max_iter" "length L < n"
  shows "(\<Sum>q<n. ma_entry A q q - col_dot L (length L) q q) \<le> error_tol"
proof -
  let ?mi = "nat (min max_iter (int n))"
  obtain m ss where loop: "pc_loop n [A] ?mi error_tol 0 (map (pc_init n ?mi) [A]) = Inr (m, ss)"
    and Ls: "[L] = map (\<lambda>s. take m (pc_L s)) ss"
    using ok by (rule pivoted_cholesky_Inr)
  define I where "I = (\<lambda>m A' s. A' = A \<and> pc_psd_state n ?mi A m s)"
  have init: "list_all2 (I 0) [A] (map (pc_init n ?mi) [A])"
    using pc_psd_state_init [OF wf ex psd] by (simp add: I_def)
  have step: "I (Suc m) A' s'"
    if "m < ?mi" "I m A' s" "pc_elem_step n A' m s = Inr s'" for m A' s s'
    using that pc_psd_state_step [OF _ sym] by (auto simp: I_def)
  have res: "m \<le> ?mi \<and> list_all2 (I m) [A] ss \<and>
      (m = ?mi \<or> (\<exists>e j. torch_max (map pc_err ss) = Some (e, j) \<and> e \<le> error_tol))"
    using pc_loop_preserves [where I = I, OF loop init _ step] by simp
  then obtain s where ss: "ss = [s]" and st: "pc_psd_state n ?mi A m s"
    by (auto simp: I_def list_all2_Cons1)
  have lL: "length L = m"
    using Ls ss st res by (simp add: pc_psd_state_def pc_inv_def)
  then have "m \<noteq> ?mi" using early by auto
  then have err: "pc_err s \<le> error_tol" using res ss by auto
  have "(\<Sum>q<n. ma_entry A q q - col_dot L (length L) q q) = (\<Sum>q<n. schur A (pc_L s) m q q)"
    using Ls ss lL by (simp add: schur_def col_dot_take)
  also have "\<dots> = pc_err s" using st early lL by (intro pc_trace_residual) simp_all
  finally show ?thesis using err by simp
qed

theorem pivoted_cholesky_psd_trace_bound_witness:
  "pivoted_cholesky 2 [Dense [[4, 2], [2, 2]]] 2 2 = Inr [[[2, 1]]] \<and>
   (\<Sum>q<2. ma_entry (Dense [[4, 2], [2, 2]]) q q - col_dot [[2, 1]] 1 q q) \<le> 2"
proof -
  note ex = example_2x2_psd
  have ok: "pivoted_cholesky 2 [Dense [[4, 2], [2, 2]]] 2 2 = Inr [[[2, 1]]]"
    by (simp add: pc_eval numeral_2_eq_2)
  from pivoted_cholesky_psd_trace_bound [OF ex(1) _ ex(2,3) ok] ok show ?thesis by simp
qed

end
