(* ===== verification/PC_Properties.thy ===== *)
theory PC_Properties
  imports PC_Invariants
begin

text \<open>
  Further properties of \<open>pivoted_cholesky\<close>: the greedy pivot choice, the order of the pivot
  values, which errors the function can return, and its edge cases. The pivot-order invariant
  \<open>pc_pivot_inv\<close> holds for every input, not only positive semi-definite ones: it follows
  from the greedy choice and from the deflation only ever subtracting squares.
\<close>

definition pc_pivot_inv :: "nat \<Rightarrow> pc_state \<Rightarrow> bool" where
  "pc_pivot_inv m s \<longleftrightarrow>
     (\<forall>r<m. 0 \<le> pc_L s ! r ! (pc_perm s ! r)) \<and>
     (\<forall>r. Suc r < m \<longrightarrow> pc_L s ! Suc r ! (pc_perm s ! Suc r) \<le> pc_L s ! r ! (pc_perm s ! r)) \<and>
     (0 < m \<longrightarrow> (\<forall>q\<in>set (drop m (pc_perm s)).
        pc_diag s ! q \<le> (pc_L s ! (m - 1) ! (pc_perm s ! (m - 1)))\<^sup>2))"

lemma pc_pivot_inv_init: "pc_pivot_inv 0 s"
  by (simp add: pc_pivot_inv_def)

lemma pc_pivot_inv_step:
  assumes inv: "pc_inv n mi m s" and pv: "pc_pivot_inv m s" and mm: "m < mi" "mi \<le> n"
    and st: "pc_elem_step n A m s = Inr s'"
  shows "pc_pivot_inv (Suc m) s'"
proof -
  note f = pc_elem_step_facts [OF inv mm st]
  obtain j where j: "m \<le> j" "j < n" "pc_perm s' = swap_perm (pc_perm s) m j"
    using f(1) by blast
  define p' where "p' = pc_perm s'"
  define d where "d = pc_diag s ! (p' ! m)"
  have perm: "is_perm n (pc_perm s)" and Ll: "length (pc_L s) = mi"
    using inv by (auto simp: pc_inv_def)
  have perm': "is_perm n p'" using perm j by (simp add: p'_def is_perm_swap_perm)
  have sd: "set (drop m p') = set (drop m (pc_perm s))"
    using swap_perm_set_drop_le [OF perm order_refl j(1,2)] j(3) by (simp add: p'_def)
  have pa: "\<And>a. a < m \<Longrightarrow> p' ! a = pc_perm s ! a"
    using j by (simp add: p'_def swap_perm_nth_other)
  have Lr: "\<And>r. r \<noteq> m \<Longrightarrow> pc_L s' ! r = pc_L s ! r"
    using f(4) by (metis nth_list_update_neq)
  have d0: "0 \<le> d" using f(3) by (simp add: d_def p'_def)
  have dmax: "d = Max (set (gather (pc_diag s) (drop m (pc_perm s))))"
    using f(2) by (simp add: d_def p'_def)
  have piv: "pc_L s' ! m ! (p' ! m) = sqrt d" using f(6) by (simp add: d_def p'_def)
  have old: "pc_L s' ! r ! (p' ! r) = pc_L s ! r ! (pc_perm s ! r)" if "r < m" for r
    using that Lr pa by simp
  have le_d: "pc_diag s ! q \<le> d" if "q \<in> set (drop m (pc_perm s))" for q
  proof -
    have "pc_diag s ! q \<in> set (gather (pc_diag s) (drop m (pc_perm s)))"
      using that by (auto simp: gather_def)
    then show ?thesis unfolding dmax by (intro Max_ge) auto
  qed
  have p'm: "p' ! m \<in> set (drop m (pc_perm s))"
    using sd perm' mm by (auto simp: is_perm_in_drop)
  have new_le: "sqrt d \<le> pc_L s ! (m - 1) ! (pc_perm s ! (m - 1))" if "0 < m"
  proof -
    have "d \<le> (pc_L s ! (m - 1) ! (pc_perm s ! (m - 1)))\<^sup>2"
      using pv that p'm by (simp add: pc_pivot_inv_def d_def)
    moreover have "0 \<le> pc_L s ! (m - 1) ! (pc_perm s ! (m - 1))"
      using pv that by (simp add: pc_pivot_inv_def)
    ultimately show ?thesis by (simp add: real_le_lsqrt)
  qed
  have resid: "pc_diag s' ! q \<le> (sqrt d)\<^sup>2" if q: "q \<in> set (drop (Suc m) p')" for q
  proof -
    obtain k where k: "Suc m \<le> k" "k < n" "q = p' ! k"
      using q perm' by (auto simp: in_set_drop_iff is_perm_length)
    then have mn: "m + 1 < n" by simp
    have "q \<in> set (drop m (pc_perm s))" using sd k perm' by (auto simp: is_perm_in_drop)
    then have "pc_diag s ! q \<le> d" by (rule le_d)
    moreover have "pc_diag s' ! q = pc_diag s ! q - (pc_L s' ! m ! q)\<^sup>2"
      using f(12) [OF mn] k by (simp add: p'_def)
    moreover have "0 \<le> (pc_L s' ! m ! q)\<^sup>2" by simp
    ultimately have "pc_diag s' ! q \<le> d" by linarith
    then show ?thesis using d0 by simp
  qed
  have "\<forall>r<Suc m. 0 \<le> pc_L s' ! r ! (p' ! r)"
    using pv old piv d0 by (auto simp: pc_pivot_inv_def less_Suc_eq)
  moreover have "\<forall>r. Suc r < Suc m \<longrightarrow> pc_L s' ! Suc r ! (p' ! Suc r) \<le> pc_L s' ! r ! (p' ! r)"
  proof (intro allI impI)
    fix r assume "Suc r < Suc m"
    then consider "Suc r < m" | "Suc r = m" by linarith
    then show "pc_L s' ! Suc r ! (p' ! Suc r) \<le> pc_L s' ! r ! (p' ! r)"
    proof cases
      case 1
      with pv old show ?thesis by (simp add: pc_pivot_inv_def)
    next
      case 2
      with new_le piv old show ?thesis by fastforce
    qed
  qed
  moreover have "\<forall>q\<in>set (drop (Suc m) p'). pc_diag s' ! q \<le> (pc_L s' ! m ! (p' ! m))\<^sup>2"
    using resid piv by simp
  ultimately show ?thesis by (simp add: pc_pivot_inv_def p'_def)
qed

subsection \<open>Which errors the loop can return\<close>

lemma pc_elem_step_error:
  "pc_elem_step n A m s = Inl e \<Longrightarrow> pc_inv n mi m s \<Longrightarrow> m < n \<Longrightarrow> e = NonFinite"
  by (cases "torch_max (gather (pc_diag s) (drop m (pc_perm s)))")
     (auto simp: pc_elem_step_def pc_inv_def Let_def is_perm_length split: if_splits)

lemma pc_batch_step_error:
  "pc_batch_step n As m ss = Inl e \<Longrightarrow> list_all2 (\<lambda>A. pc_inv n mi m) As ss \<Longrightarrow> m < n \<Longrightarrow>
   e = NonFinite"
  by (induction n As m ss rule: pc_batch_step.induct)
     (auto dest: pc_elem_step_error split: sum.splits)

lemma pc_loop_error:
  assumes "pc_loop n As mi tol m ss = Inl e" "list_all2 (\<lambda>A. pc_inv n mi m) As ss"
    "As \<noteq> []" "m \<le> mi" "mi \<le> n"
  shows "e = NonFinite"
  using assms
proof (induction n As mi tol m ss rule: pc_loop.induct)
  case (1 n As mi tol m ss)
  have m: "m < mi" using "1.prems"(1) by (cases "m < mi") (simp_all add: pc_loop.simps [of n As mi tol m ss])
  have "ss \<noteq> []" using "1.prems"(2,3) by (auto simp: list_all2_Nil2)
  then obtain er j where tm: "torch_max (map pc_err ss) = Some (er, j)"
    by (cases "torch_max (map pc_err ss)") auto
  with m "1.prems"(1) have go: "tol < er"
    by (cases "tol < er") (simp_all add: pc_loop.simps [of n As mi tol m ss])
  show ?case
  proof (cases "pc_batch_step n As m ss")
    case (Inl e')
    with m tm go "1.prems"(1) have "e' = e" by (simp add: pc_loop.simps [of n As mi tol m ss])
    with Inl "1.prems"(2,5) m show ?thesis by (auto dest: pc_batch_step_error)
  next
    case (Inr ss')
    with m tm go "1.prems"(1) have r: "pc_loop n As mi tol (m + 1) ss' = Inl e"
      by (simp add: pc_loop.simps [of n As mi tol m ss])
    have "list_all2 (\<lambda>A. pc_inv n mi (Suc m)) As ss'"
      using Inr "1.prems"(2) by (rule pc_batch_step_preserves) (use m "1.prems"(5) pc_inv_step in blast)
    with "1.IH" [OF m tm refl go Inr r] "1.prems"(3,5) m show ?thesis by simp
  qed
qed

subsection \<open>Claims\<close>

text \<open>
  C7. The greedy pivot (lines 43--56): the pivot chosen at iteration \<open>m\<close> carries the largest
  remaining diagonal value, its entry in row \<open>m\<close> is the square root of that value, and the
  diagonal entries at the positions already pivoted, the new pivot included, are not
  touched by the deflation (the range question of the spec's section 9).
\<close>

theorem pc_elem_step_greedy_pivot:
  assumes "pc_inv n mi m s" "m < mi" "mi \<le> n" "pc_elem_step n A m s = Inr s'"
  shows "pc_diag s ! (pc_perm s' ! m) = Max (set (gather (pc_diag s) (drop m (pc_perm s)))) \<and>
         pc_L s' ! m ! (pc_perm s' ! m) = sqrt (pc_diag s ! (pc_perm s' ! m)) \<and>
         (\<forall>k\<le>m. pc_diag s' ! (pc_perm s' ! k) = pc_diag s ! (pc_perm s' ! k))"
  using pc_elem_step_facts(2,6,9) [OF assms] by blast

theorem pc_elem_step_greedy_pivot_witness:
  "pc_inv 2 2 0 (pc_init 2 2 (Dense [[4, 2], [2, 2]])) \<and>
   pc_elem_step 2 (Dense [[4, 2], [2, 2]]) 0 (pc_init 2 2 (Dense [[4, 2], [2, 2]])) =
     Inr \<lparr>pc_diag = [4, 1], pc_perm = [0, 1], pc_L = [[2, 1], [0, 0]], pc_err = 1\<rparr> \<and>
   (4::real) = Max (set [4, 2])"
proof -
  have i: "pc_inv 2 2 0 (pc_init 2 2 (Dense [[4, 2], [2, (2::real)]]))"
    by (rule pc_inv_init) simp
  have st: "pc_elem_step 2 (Dense [[4, 2], [2, 2]]) 0 (pc_init 2 2 (Dense [[4, 2], [2, 2]])) =
     Inr \<lparr>pc_diag = [4, 1], pc_perm = [0, 1], pc_L = [[2, 1], [0, 0]], pc_err = 1\<rparr>"
    by (simp add: pc_eval numeral_2_eq_2)
  from pc_elem_step_greedy_pivot [OF i _ _ st] i st show ?thesis
    by (simp add: gather_def numeral_2_eq_2)
qed

text \<open>
  C8. The pivot values are non-negative and non-increasing in the order they were chosen
  (spec, section 8), for every input on which the function returns. The pivot order is the
  permutation \<open>p\<close> under which the factor is triangular: row \<open>r\<close> is zero at the columns
  \<open>p ! k\<close> pivoted before it, and its pivot is the entry at \<open>p ! r\<close>.
\<close>

lemma list_all2_init_pivot:
  "list_all (wf_input n) As \<Longrightarrow>
   list_all2 (\<lambda>A s. pc_inv n mi 0 s \<and> pc_pivot_inv 0 s) As (map (pc_init n mi) As)"
  by (auto simp: list_all2_map_right list_all_iff pc_inv_init pc_pivot_inv_init)

theorem pivoted_cholesky_pivots_nonincreasing:
  assumes ok: "pivoted_cholesky n As max_iter error_tol = Inr Ls"
    and wf: "list_all (wf_input n) As"
  shows "list_all (\<lambda>L. \<exists>p. is_perm n p \<and> (\<forall>r<length L. \<forall>k<r. L ! r ! (p ! k) = 0) \<and>
           (\<forall>r<length L. 0 \<le> L ! r ! (p ! r)) \<and>
           (\<forall>r. Suc r < length L \<longrightarrow> L ! Suc r ! (p ! Suc r) \<le> L ! r ! (p ! r))) Ls"
proof -
  let ?mi = "nat (min max_iter (int n))"
  obtain m ss where loop: "pc_loop n As ?mi error_tol 0 (map (pc_init n ?mi) As) = Inr (m, ss)"
    and Ls: "Ls = map (\<lambda>s. take m (pc_L s)) ss"
    using ok by (rule pivoted_cholesky_Inr)
  have "m \<le> ?mi \<and> list_all2 (\<lambda>A s. pc_inv n ?mi m s \<and> pc_pivot_inv m s) As ss"
    using pc_loop_preserves [where I = "\<lambda>m A s. pc_inv n ?mi m s \<and> pc_pivot_inv m s",
        OF loop list_all2_init_pivot [OF wf]] pc_inv_step pc_pivot_inv_step
    by fastforce
  then have m: "m \<le> ?mi" and all: "\<And>s. s \<in> set ss \<Longrightarrow> pc_inv n ?mi m s \<and> pc_pivot_inv m s"
    by (auto dest: list_all2_right_set [where P = "\<lambda>s. pc_inv n ?mi m s \<and> pc_pivot_inv m s"])
  show ?thesis
  proof (unfold Ls list_all_iff, intro ballI)
    fix L assume "L \<in> set (map (\<lambda>s. take m (pc_L s)) ss)"
    then obtain s where s: "s \<in> set ss" and L: "L = take m (pc_L s)" by auto
    have lL: "length L = m" using all [OF s] m by (simp add: L pc_inv_def)
    show "\<exists>p. is_perm n p \<and> (\<forall>r<length L. \<forall>k<r. L ! r ! (p ! k) = 0) \<and>
           (\<forall>r<length L. 0 \<le> L ! r ! (p ! r)) \<and>
           (\<forall>r. Suc r < length L \<longrightarrow> L ! Suc r ! (p ! Suc r) \<le> L ! r ! (p ! r))"
      using all [OF s] lL by (intro exI [of _ "pc_perm s"]) (auto simp: L pc_inv_def pc_pivot_inv_def)
  qed
qed

theorem pivoted_cholesky_pivots_nonincreasing_witness:
  "pivoted_cholesky 2 [Dense [[4, 2], [2, 2]]] 2 0 = Inr [[[2, 1], [0, 1]]] \<and>
   (\<exists>p. is_perm 2 p \<and> [[2, 1], [0, 1 :: real]] ! 1 ! (p ! 0) = 0 \<and>
      [[2, 1], [0, 1 :: real]] ! 1 ! (p ! 1) \<le> [[2, 1], [0, 1 :: real]] ! 0 ! (p ! 0))"
proof -
  have ok: "pivoted_cholesky 2 [Dense [[4, 2], [2, 2]]] 2 0 = Inr [[[2, 1], [0, 1]]]"
    by (rule pc_example_2x2)
  have wf: "list_all (wf_input 2) [Dense [[4, 2], [2, (2::real)]]]" by simp
  from pivoted_cholesky_pivots_nonincreasing [OF ok wf] ok show ?thesis by auto
qed

text \<open>
  C9. On well-formed input with a non-empty batch and \<open>max_iter \<ge> 0\<close>, the only failure
  of \<open>pivoted_cholesky\<close> is a non-finite value (a negative or a zero pivot): it never
  reduces over an empty dimension and never meets a shape mismatch.
\<close>

theorem pivoted_cholesky_only_nonfinite:
  assumes wf: "list_all (wf_input n) As" and ne: "As \<noteq> []" and mi: "0 \<le> max_iter"
    and r: "pivoted_cholesky n As max_iter error_tol = Inl e"
  shows "e = NonFinite"
proof -
  let ?mi = "nat (min max_iter (int n))"
  have nn: "\<not> min max_iter (int n) < 0" using mi by simp
  have loop: "pc_loop n As ?mi error_tol 0 (map (pc_init n ?mi) As) = Inl e"
    using r nn by (auto simp: pivoted_cholesky_def Let_def split: sum.splits prod.splits)
  show ?thesis by (rule pc_loop_error [OF loop list_all2_init [OF wf] ne]) auto
qed

theorem pivoted_cholesky_only_nonfinite_witness:
  "pivoted_cholesky 2 [Dense [[1, 2], [2, 1]]] 2 0 = Inl NonFinite \<and>
   list_all (wf_input 2) [Dense [[1, 2], [2, (1::real)]]]"
proof -
  have r: "pivoted_cholesky 2 [Dense [[1, 2], [2, 1]]] 2 0 = Inl NonFinite"
    by (simp add: pc_eval numeral_2_eq_2)
  have wf: "list_all (wf_input 2) [Dense [[1, 2], [2, (1::real)]]]" by simp
  from pivoted_cholesky_only_nonfinite [OF wf _ _ r] r wf show ?thesis by simp
qed

text \<open>
  C10. Early exit (spec, section 4.1): when the L1 norm of every batch element's diagonal is
  already at most \<open>error_tol\<close>, the loop does not run and every factor is empty.
\<close>

theorem pivoted_cholesky_early_exit:
  assumes ne: "As \<noteq> []" and mi: "0 \<le> max_iter"
    and small: "list_all (\<lambda>A. l1_norm (ma_diag A) \<le> error_tol) As"
  shows "pivoted_cholesky n As max_iter error_tol = Inr (map (\<lambda>_. []) As)"
proof -
  let ?mi = "nat (min max_iter (int n))"
  let ?ss = "map (pc_init n ?mi) As"
  have nn: "\<not> min max_iter (int n) < 0" using mi by simp
  have loop: "pc_loop n As ?mi error_tol 0 ?ss = Inr (0, ?ss)"
  proof (cases "0 < ?mi")
    case True
    have "map pc_err ?ss \<noteq> []" using ne by simp
    then obtain e j where tm: "torch_max (map pc_err ?ss) = Some (e, j)"
      by (cases "torch_max (map pc_err ?ss)") auto
    have "e \<in> set (map pc_err ?ss)"
      using torch_max_spec(1,2) [OF tm] by (metis nth_mem)
    then have "e \<le> error_tol" using small by (auto simp: list_all_iff pc_init_def)
    with True tm show ?thesis by (simp add: pc_loop.simps [of n As ?mi error_tol 0 ?ss])
  next
    case False
    show ?thesis unfolding pc_loop.simps [of n As ?mi error_tol 0 ?ss] if_not_P [OF False] ..
  qed
  show ?thesis
    unfolding pivoted_cholesky_def Let_def if_not_P [OF nn] loop by simp
qed

theorem pivoted_cholesky_early_exit_witness:
  "pivoted_cholesky 2 [Dense [[0, 0], [0, 0]]] 2 0 = Inr [[]]"
proof -
  have "list_all (\<lambda>A. l1_norm (ma_diag A) \<le> 0) [Dense [[0, 0], [0, (0::real)]]]"
    by (simp add: l1_norm_def numeral_2_eq_2)
  from pivoted_cholesky_early_exit [OF _ _ this, of 2 2] show ?thesis by simp
qed

text \<open>
  C11. A non-positive \<open>max_iter\<close>: zero gives an empty factor for every batch element, a
  negative value makes \<open>torch.zeros\<close> raise. The spec's section 7 asks for an
  InvalidArgumentError in both cases.
\<close>

theorem pivoted_cholesky_nonpositive_max_iter:
  "max_iter \<le> 0 \<Longrightarrow> pivoted_cholesky n As max_iter error_tol =
     (if max_iter = 0 then Inr (map (\<lambda>_. []) As) else Inl InvalidShape)"
proof (cases "max_iter = 0")
  case True
  then have z: "min max_iter (int n) = 0" by simp
  have "pc_loop n As 0 error_tol 0 (map (pc_init n 0) As) = Inr (0, map (pc_init n 0) As)"
    by (simp add: pc_loop.simps [of n As 0])
  then show ?thesis using True unfolding pivoted_cholesky_def Let_def z by simp
next
  case False
  assume "max_iter \<le> 0"
  with False have neg: "min max_iter (int n) < 0" by simp
  show ?thesis unfolding pivoted_cholesky_def Let_def if_P [OF neg] if_not_P [OF False] ..
qed

theorem pivoted_cholesky_nonpositive_max_iter_witness:
  "pivoted_cholesky 3 [Dense [[1, 0, 0], [0, 1, 0], [0, 0, 1]]] 0 0 = Inr [[]] \<and>
   pivoted_cholesky 3 [Dense [[1, 0, 0], [0, 1, 0], [0, 0, 1]]] (-1) 0 = Inl InvalidShape"
  using pivoted_cholesky_nonpositive_max_iter [of 0 3 "[Dense [[1, 0, 0], [0, 1, 0], [0, 0, 1]]]" 0]
    pivoted_cholesky_nonpositive_max_iter [of "-1" 3 "[Dense [[1, 0, 0], [0, 1, 0], [0, 0, 1]]]" 0]
  by simp

text \<open>
  An iteration on an element whose unpivoted diagonal is all zero divides by a zero pivot:
  the maximum is 0, its square root is the pivot, and line 72 divides by it.
\<close>

lemma pc_elem_step_zero_residual:
  assumes inv: "pc_inv n mi m s" and m: "m < mi" "mi \<le> n" "m + 1 < n"
    and zero: "\<forall>q\<in>set (drop m (pc_perm s)). pc_diag s ! q = 0"
  shows "pc_elem_step n A m s = Inl NonFinite"
proof (cases "pc_elem_step n A m s")
  case (Inl e)
  then show ?thesis using pc_elem_step_error [OF Inl inv] m by simp
next
  case (Inr s')
  have perm: "is_perm n (pc_perm s)" and row: "length (pc_L s ! m) = n"
    using inv m by (simp_all add: pc_inv_def)
  obtain v jj where tm: "torch_max (gather (pc_diag s) (drop m (pc_perm s))) = Some (v, jj)"
    and step: "m + 1 < n \<Longrightarrow>
       (let p' = swap_perm (pc_perm s) m (jj + m);
            pi_i = drop (m + 1) p';
            L_new = map (\<lambda>q. (ma_row A (p' ! m) ! q - col_dot (pc_L s) m (p' ! m) q) / sqrt v) pi_i;
            diag = scatter (pc_diag s) pi_i (map2 (\<lambda>x y. x - y\<^sup>2) (gather (pc_diag s) pi_i) L_new)
        in sqrt v \<noteq> 0 \<and>
           s' = \<lparr>pc_diag = diag, pc_perm = p',
                 pc_L = (pc_L s)[m := scatter ((pc_L s ! m)[p' ! m := sqrt v]) pi_i L_new],
                 pc_err = l1_norm (gather diag pi_i)\<rparr>)"
    using pc_elem_step_Inr [OF Inr perm row] by blast
  have jj: "jj < length (drop m (pc_perm s))" and g: "gather (pc_diag s) (drop m (pc_perm s)) ! jj = v"
    using torch_max_spec(1,2) [OF tm] by simp_all
  have mem: "drop m (pc_perm s) ! jj \<in> set (drop m (pc_perm s))" using jj by (rule nth_mem)
  have "v = pc_diag s ! (drop m (pc_perm s) ! jj)" using g jj by (simp only: nth_gather)
  then have "v = 0" using zero mem by simp
  with step [OF m(3)] show ?thesis by (simp add: Let_def)
qed

lemma pc_batch_step_Inr_elem:
  "pc_batch_step n As m ss = Inr ss' \<Longrightarrow> i < length ss \<Longrightarrow> length As = length ss \<Longrightarrow>
   \<exists>s'. pc_elem_step n (As ! i) m (ss ! i) = Inr s'"
proof (induction n As m ss arbitrary: ss' i rule: pc_batch_step.induct)
  case (2 n A As m s ss)
  then show ?case by (cases i) (auto split: sum.splits)
qed auto

subsection \<open>The batch is not processed independently\<close>

text \<open>
  C12. The batch is not processed independently (a violation of the spec's batch-invariance,
  section 8). The loop runs while the largest error of the whole batch exceeds the tolerance
  (line 42). So once some element's unpivoted diagonal is all zero (its residual is exact),
  while another element's error still exceeds the tolerance, the next iteration pivots that
  element on a zero value and divides by zero (line 72): if a further row is to be computed
  (\<open>m + 1 < n\<close>), the whole call becomes non-finite, whatever the other elements hold.
\<close>

theorem pc_loop_converged_element_nan:
  assumes inv: "list_all2 (\<lambda>A. pc_inv n mi m) As ss" and m: "m < mi" "mi \<le> n" "m + 1 < n"
    and zero: "i < length ss" "\<forall>q\<in>set (drop m (pc_perm (ss ! i))). pc_diag (ss ! i) ! q = 0"
    and go: "k < length ss" "error_tol < pc_err (ss ! k)"
  shows "pc_loop n As mi error_tol m ss = Inl NonFinite"
proof -
  have lAs: "length As = length ss" using inv by (rule list_all2_lengthD)
  obtain e j where tm: "torch_max (map pc_err ss) = Some (e, j)"
    using go(1) by (cases "torch_max (map pc_err ss)") auto
  have "pc_err (ss ! k) \<le> e" using torch_max_spec(3) [OF tm] go(1) by simp
  with go(2) have te: "error_tol < e" by simp
  have inv_i: "pc_inv n mi m (ss ! i)" using inv zero(1) lAs by (simp add: list_all2_conv_all_nth)
  have "pc_elem_step n (As ! i) m (ss ! i) = Inl NonFinite"
    using pc_elem_step_zero_residual [OF inv_i m zero(2)] .
  then have "\<not> (\<exists>ss'. pc_batch_step n As m ss = Inr ss')"
    using pc_batch_step_Inr_elem [OF _ zero(1) lAs] by fastforce
  then obtain err where b: "pc_batch_step n As m ss = Inl err" by (cases "pc_batch_step n As m ss") auto
  then have "err = NonFinite" using pc_batch_step_error [OF b inv] m by simp
  with b m(1) tm te show ?thesis by (simp add: pc_loop.simps [of n As mi error_tol m ss])
qed

theorem pc_loop_converged_element_nan_witness:
  "pc_loop 3 [Dense [[0, 0, 0], [0, 0, 0], [0, 0, 0]], Dense [[1, 0, 0], [0, 1, 0], [0, 0, 1]]] 3 (1 / 1000) 0
     (map (pc_init 3 3) [Dense [[0, 0, 0], [0, 0, 0], [0, 0, 0]], Dense [[1, 0, 0], [0, 1, 0], [0, 0, 1]]])
   = Inl NonFinite"
proof (rule pc_loop_converged_element_nan [where i = 0 and k = 1])
  show "list_all2 (\<lambda>A. pc_inv 3 3 0)
      [Dense [[0, 0, 0], [0, 0, 0], [0, 0, 0]], Dense [[1, 0, 0], [0, 1, 0], [0, 0, 1]]]
      (map (pc_init 3 3) [Dense [[0, 0, 0], [0, 0, 0], [0, 0, 0]], Dense [[1, 0, 0], [0, 1, 0], [0, 0, 1]]])"
    by (rule list_all2_init) (simp add: numeral_3_eq_3)
qed (simp_all add: pc_init_def l1_norm_def numeral_3_eq_3 upt_rec)

subsection \<open>Concrete runs behind the findings\<close>

text \<open>
  The all-ones matrix alone factors in one step and the identity alone in three; batched
  together the call becomes non-finite (an instance of C12 at \<open>m = 1\<close>).
\<close>

lemma pivoted_cholesky_batch_nan_example:
  "pivoted_cholesky 3 [Dense [[1, 1, 1], [1, 1, 1], [1, 1, 1]]] 3 (1 / 1000) = Inr [[[1, 1, 1]]] \<and>
   pivoted_cholesky 3 [Dense [[1, 0, 0], [0, 1, 0], [0, 0, 1]]] 3 (1 / 1000)
     = Inr [[[1, 0, 0], [0, 1, 0], [0, 0, 1]]] \<and>
   pivoted_cholesky 3 [Dense [[1, 1, 1], [1, 1, 1], [1, 1, 1]], Dense [[1, 0, 0], [0, 1, 0], [0, 0, 1]]]
     3 (1 / 1000) = Inl NonFinite"
  by (simp add: pc_eval numeral_3_eq_3)

text \<open>
  On the symmetric indefinite matrix \<open>[[1, 2], [2, 1]]\<close> the first iteration deflates the
  remaining diagonal entry to \<open>-3\<close>, and the L1 error grows from 2 to 3; the spec's section 8
  says the error never grows.
\<close>

lemma pc_error_grows_example:
  "pc_err (pc_init 2 2 (Dense [[1, 2], [2, 1]])) = 2 \<and>
   pc_elem_step 2 (Dense [[1, 2], [2, 1]]) 0 (pc_init 2 2 (Dense [[1, 2], [2, 1]])) =
     Inr \<lparr>pc_diag = [1, -3], pc_perm = [0, 1], pc_L = [[1, 2], [0, 0]], pc_err = 3\<rparr>"
  by (simp add: pc_eval numeral_2_eq_2)

end
