(* ===== verification/PC_Transitions.thy ===== *)
theory PC_Transitions
  imports PC_Invariants
begin

text \<open>
  The \<open>while\<close> loop of lines 41--80 as a transition system. A configuration is the loop
  variable \<open>m\<close> with the batch buffers, or the error the loop raised; \<open>pc_trans\<close> is one
  pass through the guard of line 42 and the body, and reachability is its reflexive
  transitive closure \<open>(pc_trans n As mi tol)\<^sup>*\<^sup>*\<close>. The structural invariant holds in every
  reachable configuration, by rule induction, not only in the one \<open>pc_loop\<close> returns (which
  is reachable, \<open>pc_loop_steps\<close>).
\<close>

type_synonym pc_config = "num_error + nat \<times> pc_state list"

inductive pc_trans :: "nat \<Rightarrow> matrix_input list \<Rightarrow> nat \<Rightarrow> real \<Rightarrow> pc_config \<Rightarrow> pc_config \<Rightarrow> bool"
  for n As mi tol where
  empty: "m < mi \<Longrightarrow> torch_max (map pc_err ss) = None \<Longrightarrow>
    pc_trans n As mi tol (Inr (m, ss)) (Inl EmptyReduction)"
| fail: "m < mi \<Longrightarrow> torch_max (map pc_err ss) = Some (e, j) \<Longrightarrow> tol < e \<Longrightarrow>
    pc_batch_step n As m ss = Inl err \<Longrightarrow> pc_trans n As mi tol (Inr (m, ss)) (Inl err)"
| iter: "m < mi \<Longrightarrow> torch_max (map pc_err ss) = Some (e, j) \<Longrightarrow> tol < e \<Longrightarrow>
    pc_batch_step n As m ss = Inr ss' \<Longrightarrow> pc_trans n As mi tol (Inr (m, ss)) (Inr (Suc m, ss'))"

code_pred pc_trans .

inductive_cases pc_trans_ErrE [elim!]: "pc_trans n As mi tol (Inl e) c"
inductive_cases pc_trans_RunE: "pc_trans n As mi tol (Inr (m, ss)) c"

subsection \<open>The loop follows the relation\<close>

lemma pc_loop_steps:
  "(pc_trans n As mi tol)\<^sup>*\<^sup>* (Inr (m, ss)) (pc_loop n As mi tol m ss)"
proof (induction n As mi tol m ss rule: pc_loop.induct)
  case (1 n As mi tol m ss)
  show ?case
  proof (cases "m < mi")
    case False
    then show ?thesis by (simp add: pc_loop.simps [of n As mi tol m ss])
  next
    case True
    show ?thesis
    proof (cases "torch_max (map pc_err ss)")
      case None
      have "pc_trans n As mi tol (Inr (m, ss)) (Inl EmptyReduction)"
        using True None by (rule pc_trans.empty)
      moreover have "pc_loop n As mi tol m ss = Inl EmptyReduction"
        using True None by (subst pc_loop.simps) simp
      ultimately show ?thesis by simp
    next
      case (Some ej)
      then obtain e j where tm: "torch_max (map pc_err ss) = Some (e, j)" by (cases ej) auto
      show ?thesis
      proof (cases "tol < e")
        case False
        with True tm show ?thesis by (simp add: pc_loop.simps [of n As mi tol m ss])
      next
        case go: True
        show ?thesis
        proof (cases "pc_batch_step n As m ss")
          case (Inl err)
          with True tm go show ?thesis
            by (auto simp: pc_loop.simps [of n As mi tol m ss] intro: pc_trans.fail)
        next
          case (Inr ss')
          have eq: "pc_loop n As mi tol m ss = pc_loop n As mi tol (m + 1) ss'"
            using True tm go Inr by (simp add: pc_loop.simps [of n As mi tol m ss])
          have "pc_trans n As mi tol (Inr (m, ss)) (Inr (Suc m, ss'))"
            using True tm go Inr by (rule pc_trans.iter)
          with "1.IH" [OF True tm refl go Inr] show ?thesis
            unfolding eq by (auto intro: converse_rtranclp_into_rtranclp)
        qed
      qed
    qed
  qed
qed

subsection \<open>The invariant of every reachable configuration\<close>

lemma pc_trans_inv:
  assumes "pc_trans n As mi tol (Inr (m, ss)) (Inr (m', ss'))"
    and "m \<le> mi" "mi \<le> n" "list_all2 (\<lambda>A. pc_inv n mi m) As ss"
  shows "m' \<le> mi \<and> list_all2 (\<lambda>A. pc_inv n mi m') As ss'"
proof -
  from assms(1) have "m < mi \<and> m' = Suc m \<and> pc_batch_step n As m ss = Inr ss'"
    by (cases rule: pc_trans_RunE) auto
  then have m: "m < mi" "m' = Suc m" and b: "pc_batch_step n As m ss = Inr ss'" by simp_all
  have "list_all2 (\<lambda>A. pc_inv n mi (Suc m)) As ss'"
    using b assms(4)
    by (rule pc_batch_step_preserves [where I = "\<lambda>m A. pc_inv n mi m"])
      (rule pc_inv_step [OF _ m(1) assms(3)])
  with m show ?thesis by simp
qed

lemma pc_reach_inv:
  assumes "(pc_trans n As mi tol)\<^sup>*\<^sup>* (Inr (0, map (pc_init n mi) As)) c"
    and wf: "list_all (wf_input n) As" and mn: "mi \<le> n"
  shows "\<forall>m ss. c = Inr (m, ss) \<longrightarrow> m \<le> mi \<and> list_all2 (\<lambda>A. pc_inv n mi m) As ss"
  using assms(1)
proof (induction rule: rtranclp_induct)
  case base
  then show ?case using list_all2_init [OF wf] by simp
next
  case (step y z)
  show ?case
  proof (intro allI impI)
    fix m ss assume z: "z = Inr (m, ss)"
    obtain m0 ss0 where y: "y = Inr (m0, ss0)"
      using step.hyps(2) by (cases y) auto
    have "m0 \<le> mi \<and> list_all2 (\<lambda>A. pc_inv n mi m0) As ss0" using step.IH y by simp
    then show "m \<le> mi \<and> list_all2 (\<lambda>A. pc_inv n mi m) As ss"
      using pc_trans_inv [of n As mi tol m0 ss0 m ss] step.hyps(2) y z mn by simp
  qed
qed

text \<open>The run of the 2 \<open>\<times>\<close> 2 example, state by state.\<close>

lemma pc_loop_example:
  "pc_loop 2 [Dense [[4, 2], [2, 2]]] 2 0 0 [pc_init 2 2 (Dense [[4, 2], [2, 2]])] =
   Inr (2, [\<lparr>pc_diag = [4, 1], pc_perm = [0, 1], pc_L = [[2, 1], [0, 1]], pc_err = 1\<rparr>])"
  by (simp add: pc_eval numeral_2_eq_2)

subsection \<open>Claims\<close>

text \<open>
  C24. The structural invariant holds in every configuration the loop can reach from the
  buffers of lines 10--29, not only in the one it returns: \<open>m \<le> max_iter\<close>, and for every
  batch element the shapes, the permutation, the rows not yet written being zero, and
  triangularity in pivot order (\<open>pc_inv\<close>).
\<close>

theorem pc_reachable_inv:
  assumes "(pc_trans n As mi tol)\<^sup>*\<^sup>* (Inr (0, map (pc_init n mi) As)) (Inr (m, ss))"
    and "list_all (wf_input n) As" and "mi \<le> n"
  shows "m \<le> mi \<and> list_all2 (\<lambda>A. pc_inv n mi m) As ss"
  using pc_reach_inv [OF assms] by simp

theorem pc_reachable_inv_witness:
  "2 \<le> (2::nat) \<and> list_all2 (\<lambda>A. pc_inv 2 2 2) [Dense [[4, 2], [2, 2]]]
     [\<lparr>pc_diag = [4, 1], pc_perm = [0, 1], pc_L = [[2, 1], [0, 1]], pc_err = 1\<rparr>]"
proof -
  have "(pc_trans 2 [Dense [[4, 2], [2, 2]]] 2 0)\<^sup>*\<^sup>* (Inr (0, map (pc_init 2 2) [Dense [[4, 2], [2, 2]]]))
     (Inr (2, [\<lparr>pc_diag = [4, 1], pc_perm = [0, 1], pc_L = [[2, 1], [0, 1]], pc_err = 1\<rparr>]))"
    using pc_loop_steps [of 2 "[Dense [[4, 2], [2, 2]]]" 2 0 0 "[pc_init 2 2 (Dense [[4, 2], [2, 2]])]"]
      pc_loop_example by simp
  moreover have "list_all (wf_input 2) [Dense [[4, 2], [2, 2 :: real]]]" by simp
  ultimately show ?thesis by (rule pc_reachable_inv) simp
qed

end
