(* ===== verification/Woodbury.thy ===== *)
theory Woodbury
  imports Prelude
begin

text \<open>
  The Woodbury solver of \<open>src/gpytorch/utils/pivoted_cholesky.py\<close>: \<open>woodbury_factor\<close>
  (lines 85--120) and \<open>woodbury_solve\<close> (lines 123--145), on one batch element. Matrices are
  lists of rows; a product or a transpose takes the column count explicitly, so that a
  rank-0 factor (no rows) keeps its shape as the tensor does. The dense solve of line 117--118
  (\<open>torch.cholesky\<close> then \<open>torch.potrs\<close>, library routines) is a parameter \<open>chol_solve\<close>
  of the factor; its contract (\<open>solver_correct\<close>) is all the correctness proof asks of it.
\<close>

subsection \<open>Vectors and matrices as lists\<close>

definition dot :: "vec \<Rightarrow> vec \<Rightarrow> real" where
  "dot xs ys = sum_list (map2 (*) xs ys)"

definition col :: "mat \<Rightarrow> nat \<Rightarrow> vec" where
  "col A j = map (\<lambda>r. r ! j) A"

text \<open>\<open>A.transpose(-1, -2)\<close> of a matrix with \<open>c\<close> columns.\<close>

definition mat_T :: "nat \<Rightarrow> mat \<Rightarrow> mat" where
  "mat_T c A = map (col A) [0..<c]"

text \<open>\<open>A @ B\<close> where \<open>B\<close> has \<open>c\<close> columns.\<close>

definition mat_mul :: "mat \<Rightarrow> mat \<Rightarrow> nat \<Rightarrow> mat" where
  "mat_mul A B c = map (\<lambda>r. map (\<lambda>j. dot r (col B j)) [0..<c]) A"

definition mat_vec :: "mat \<Rightarrow> vec \<Rightarrow> vec" where
  "mat_vec A x = map (\<lambda>r. dot r x) A"

definition eye :: "nat \<Rightarrow> mat" where
  "eye k = map (\<lambda>i. map (\<lambda>j. if i = j then 1 else 0) [0..<k]) [0..<k]"

definition mat_add :: "mat \<Rightarrow> mat \<Rightarrow> mat" where
  "mat_add A B = map2 (map2 (+)) A B"

text \<open>\<open>v.unsqueeze(-1) * A\<close>: row \<open>i\<close> of \<open>A\<close> scaled by \<open>v[i]\<close>.\<close>

definition scale_rows :: "vec \<Rightarrow> mat \<Rightarrow> mat" where
  "scale_rows v A = map2 (\<lambda>x r. map (\<lambda>y. x * y) r) v A"

text \<open>Column count of a matrix given as rows (0 for a matrix with no rows).\<close>

definition ncols :: "mat \<Rightarrow> nat" where
  "ncols B = (case B of [] \<Rightarrow> 0 | r # _ \<Rightarrow> length r)"

subsection \<open>The code\<close>

text \<open>
  Lines 103--105 and 134--136: the reciprocal of the shift, normalised by its largest
  magnitude. A zero shift gives \<open>inf\<close> in \<open>reciprocal\<close> and then NaN in the division; an
  empty shift makes \<open>max\<close> raise.
\<close>

definition shift_scale :: "vec \<Rightarrow> num_error + real \<times> vec" where
  "shift_scale shift =
    (if list_all (\<lambda>x. x \<noteq> 0) shift then
       (let inv_shift = map (\<lambda>x. 1 / x) shift
        in case torch_max (map abs inv_shift) of
             None \<Rightarrow> Inl EmptyReduction
           | Some (scale, _) \<Rightarrow> Inr (scale, map (\<lambda>x. x / scale) inv_shift))
     else Inl NonFinite)"

text \<open>Lines 106--109: \<open>V (diag(inv_shift) V\<^sup>T) + I / scale\<close>, a \<open>k \<times> k\<close> matrix.\<close>

definition shifted_mat :: "mat \<Rightarrow> vec \<Rightarrow> real \<Rightarrow> mat" where
  "shifted_mat V inv_shift scale =
     mat_add (mat_mul V (scale_rows inv_shift (mat_T (length inv_shift) V)) (length V))
             (map (map (\<lambda>x. x / scale)) (eye (length V)))"

text \<open>Lines 100--120 (the single-precision path; the half-precision path only casts).\<close>

definition woodbury_factor ::
  "(mat \<Rightarrow> mat \<Rightarrow> num_error + mat) \<Rightarrow> mat \<Rightarrow> vec \<Rightarrow> num_error + mat" where
  "woodbury_factor chol_solve low_rank_mat shift =
    (case shift_scale shift of
       Inl e \<Rightarrow> Inl e
     | Inr (scale, inv_shift) \<Rightarrow> chol_solve (shifted_mat low_rank_mat inv_shift scale) low_rank_mat)"

text \<open>
  Lines 141--145, for a right-hand side that is a vector, given the scale and the
  normalised reciprocal shift of lines 134--136.
\<close>

definition woodbury_solve_core :: "vec \<Rightarrow> mat \<Rightarrow> mat \<Rightarrow> real \<Rightarrow> vec \<Rightarrow> vec" where
  "woodbury_solve_core vector low_rank_mat wfactor scale inv_shift =
    (let n = length inv_shift;
         shifted_vector = map2 (*) inv_shift vector;
         diff = map2 (*) inv_shift
                  (mat_vec (mat_mul (mat_T n low_rank_mat) wfactor n) shifted_vector);
         res = map2 (-) shifted_vector diff
     in map (\<lambda>x. x * scale) res)"

text \<open>Lines 134--145, for a right-hand side that is a vector.\<close>

definition woodbury_solve :: "vec \<Rightarrow> mat \<Rightarrow> mat \<Rightarrow> vec \<Rightarrow> num_error + vec" where
  "woodbury_solve vector low_rank_mat wfactor shift =
    (case shift_scale shift of
       Inl e \<Rightarrow> Inl e
     | Inr (scale, inv_shift) \<Rightarrow> Inr (woodbury_solve_core vector low_rank_mat wfactor scale inv_shift))"

text \<open>
  Lines 138--145 for a right-hand side with more than one dimension, an \<open>n \<times> c\<close> matrix:
  \<open>inv_shift.unsqueeze(-1)\<close> scales its rows, and the products are matrix products.
\<close>

definition woodbury_solve_mat :: "mat \<Rightarrow> mat \<Rightarrow> mat \<Rightarrow> vec \<Rightarrow> num_error + mat" where
  "woodbury_solve_mat vector low_rank_mat wfactor shift =
    (case shift_scale shift of
       Inl e \<Rightarrow> Inl e
     | Inr (scale, inv_shift) \<Rightarrow>
        (let n = length shift;
             c = ncols vector;
             shifted_vector = scale_rows inv_shift vector;
             diff = scale_rows inv_shift
                      (mat_mul (mat_mul (mat_T n low_rank_mat) wfactor n) shifted_vector c);
             res = map2 (map2 (-)) shifted_vector diff
         in Inr (map (map (\<lambda>x. x * scale)) res)))"

text \<open>The right-hand side as the code receives it: one dimension or two (line 138).\<close>

datatype rhs = Vec vec | Mat mat

definition woodbury_solve_rhs :: "rhs \<Rightarrow> mat \<Rightarrow> mat \<Rightarrow> vec \<Rightarrow> num_error + rhs" where
  "woodbury_solve_rhs vector low_rank_mat wfactor shift =
    (case vector of
       Vec v \<Rightarrow> map_sum id Vec (woodbury_solve v low_rank_mat wfactor shift)
     | Mat B \<Rightarrow> map_sum id Mat (woodbury_solve_mat B low_rank_mat wfactor shift))"

subsection \<open>Batches\<close>

text \<open>
  A batch of \<open>B\<close> problems is a list of elements. On batched tensors \<open>inv_shift.abs().max()\<close>
  (lines 104 and 135) reduces over the whole tensor, batch dimensions included: one scale
  for the batch. The batched Cholesky solve works element by element and fails if any
  element fails; mismatched batch sizes make broadcasting raise.
\<close>

fun all_Inr :: "('e + 'a) list \<Rightarrow> 'e + 'a list" where
  "all_Inr [] = Inr []"
| "all_Inr (Inl e # rs) = Inl e"
| "all_Inr (Inr x # rs) = (case all_Inr rs of Inl e \<Rightarrow> Inl e | Inr xs \<Rightarrow> Inr (x # xs))"

definition batch_shift_scale :: "vec list \<Rightarrow> num_error + real \<times> vec list" where
  "batch_shift_scale shifts =
    (if list_all (list_all (\<lambda>x. x \<noteq> 0)) shifts then
       (let inv_shift = map (map (\<lambda>x. 1 / x)) shifts
        in case torch_max (map abs (concat inv_shift)) of
             None \<Rightarrow> Inl EmptyReduction
           | Some (scale, _) \<Rightarrow> Inr (scale, map (map (\<lambda>x. x / scale)) inv_shift))
     else Inl NonFinite)"

definition woodbury_factor_batch ::
  "(mat \<Rightarrow> mat \<Rightarrow> num_error + mat) \<Rightarrow> mat list \<Rightarrow> vec list \<Rightarrow> num_error + mat list" where
  "woodbury_factor_batch chol_solve low_rank_mats shifts =
    (if length low_rank_mats \<noteq> length shifts then Inl InvalidShape
     else case batch_shift_scale shifts of
       Inl e \<Rightarrow> Inl e
     | Inr (scale, inv_shifts) \<Rightarrow>
         all_Inr (map2 (\<lambda>V d. chol_solve (shifted_mat V d scale) V) low_rank_mats inv_shifts))"

definition woodbury_solve_batch :: "vec list \<Rightarrow> mat list \<Rightarrow> mat list \<Rightarrow> vec list \<Rightarrow> num_error + vec list" where
  "woodbury_solve_batch vectors low_rank_mats wfactors shifts =
    (if length vectors \<noteq> length shifts \<or> length low_rank_mats \<noteq> length shifts
        \<or> length wfactors \<noteq> length shifts then Inl InvalidShape
     else case batch_shift_scale shifts of
       Inl e \<Rightarrow> Inl e
     | Inr (scale, inv_shifts) \<Rightarrow>
         Inr (map (\<lambda>i. woodbury_solve_core (vectors ! i) (low_rank_mats ! i) (wfactors ! i)
                          scale (inv_shifts ! i)) [0..<length shifts]))"

subsection \<open>The system it solves\<close>

text \<open>\<open>(diag(shift) + V\<^sup>T V) x\<close>, computed directly: the specification of the solve.\<close>

definition woodbury_system :: "mat \<Rightarrow> vec \<Rightarrow> vec \<Rightarrow> vec" where
  "woodbury_system V shift x =
     map2 (+) (map2 (*) shift x) (mat_vec (mat_mul (mat_T (length shift) V) V (length shift)) x)"

text \<open>A symmetric matrix: \<open>torch.cholesky\<close> reads only its lower triangle.\<close>

definition sym_mat :: "mat \<Rightarrow> bool" where
  "sym_mat M \<longleftrightarrow> (\<forall>i<length M. \<forall>j<length M. M ! i ! j = M ! j ! i)"

text \<open>
  The contract of the dense solve as a whole: whenever it returns on a symmetric \<open>M\<close>, the
  result has one row per row of \<open>M\<close>, the columns of \<open>B\<close>, and solves \<open>M R = B\<close>.
\<close>

definition solver_correct :: "(mat \<Rightarrow> mat \<Rightarrow> num_error + mat) \<Rightarrow> bool" where
  "solver_correct chol_solve \<longleftrightarrow>
     (\<forall>M B R. sym_mat M \<longrightarrow> chol_solve M B = Inr R \<longrightarrow>
        length R = length M \<and> (\<forall>r\<in>set R. length r = ncols B) \<and> mat_mul M R (ncols B) = B)"

text \<open>A \<open>k \<times> n\<close> matrix.\<close>

definition mat_dims :: "nat \<Rightarrow> nat \<Rightarrow> mat \<Rightarrow> bool" where
  "mat_dims k n A \<longleftrightarrow> length A = k \<and> list_all (\<lambda>r. length r = n) A"

subsection \<open>Index-level rules\<close>

lemma length_col [simp]: "length (col A j) = length A"
  by (simp add: col_def)

lemma nth_col [mat_simps]: "i < length A \<Longrightarrow> col A j ! i = A ! i ! j"
  by (simp add: col_def)

lemma dot_sum [mat_simps]:
  "length xs = length ys \<Longrightarrow> dot xs ys = (\<Sum>i<length xs. xs ! i * ys ! i)"
  by (simp add: dot_def sum_list_sum_nth atLeast0LessThan)

lemma length_mat_T [simp]: "length (mat_T c A) = c"
  by (simp add: mat_T_def)

lemma nth_mat_T [mat_simps]: "i < c \<Longrightarrow> mat_T c A ! i = col A i"
  by (simp add: mat_T_def)

lemma length_mat_mul [simp]: "length (mat_mul A B c) = length A"
  by (simp add: mat_mul_def)

lemma length_mat_mul_row [simp]: "i < length A \<Longrightarrow> length (mat_mul A B c ! i) = c"
  by (simp add: mat_mul_def)

lemma nth_mat_mul [mat_simps]:
  "i < length A \<Longrightarrow> j < c \<Longrightarrow> mat_mul A B c ! i ! j = dot (A ! i) (col B j)"
  by (simp add: mat_mul_def)

lemma length_mat_vec [simp]: "length (mat_vec A x) = length A"
  by (simp add: mat_vec_def)

lemma nth_mat_vec [mat_simps]: "i < length A \<Longrightarrow> mat_vec A x ! i = dot (A ! i) x"
  by (simp add: mat_vec_def)

lemma length_eye [simp]: "length (eye k) = k"
  by (simp add: eye_def)

lemma nth_eye [mat_simps]: "i < k \<Longrightarrow> j < k \<Longrightarrow> eye k ! i ! j = (if i = j then 1 else 0)"
  by (simp add: eye_def)

lemma length_eye_row [simp]: "i < k \<Longrightarrow> length (eye k ! i) = k"
  by (simp add: eye_def)

lemma length_mat_add [simp]: "length (mat_add A B) = min (length A) (length B)"
  by (simp add: mat_add_def)

lemma nth_mat_add [mat_simps]:
  "i < length A \<Longrightarrow> i < length B \<Longrightarrow> j < length (A ! i) \<Longrightarrow> j < length (B ! i) \<Longrightarrow>
   mat_add A B ! i ! j = A ! i ! j + B ! i ! j"
  by (simp add: mat_add_def)

lemma length_mat_add_row [simp]:
  "i < length A \<Longrightarrow> i < length B \<Longrightarrow> length (mat_add A B ! i) = min (length (A ! i)) (length (B ! i))"
  by (simp add: mat_add_def)

lemma length_scale_rows [simp]: "length (scale_rows v A) = min (length v) (length A)"
  by (simp add: scale_rows_def)

lemma nth_scale_rows [mat_simps]:
  "i < length v \<Longrightarrow> i < length A \<Longrightarrow> j < length (A ! i) \<Longrightarrow> scale_rows v A ! i ! j = v ! i * A ! i ! j"
  by (simp add: scale_rows_def)

lemma length_scale_rows_row [simp]:
  "i < length v \<Longrightarrow> i < length A \<Longrightarrow> length (scale_rows v A ! i) = length (A ! i)"
  by (simp add: scale_rows_def)

lemma mat_dims_row: "mat_dims k n A \<Longrightarrow> i < k \<Longrightarrow> length (A ! i) = n"
  by (simp add: mat_dims_def list_all_length)

end
