(* ===== verification/Woodbury_Correct.thy ===== *)
theory Woodbury_Correct
  imports Woodbury
begin

text \<open>
  Correctness of the Woodbury solver. \<open>woodbury_identity_fun\<close> is the algebra of the
  Woodbury identity over index functions; \<open>woodbury_solve_system\<close> carries it to the list
  model of \<open>woodbury_solve\<close>; the claims then say that a factor computed by
  \<open>woodbury_factor\<close> with any dense solve that meets its contract makes
  \<open>woodbury_solve\<close> return the solution of \<open>(diag(shift) + V\<^sup>T V) x = b\<close>.
\<close>

subsection \<open>The identity over index functions\<close>

text \<open>
  With \<open>D = diag(d)\<close>, \<open>d i = 1 / (a s i)\<close>, \<open>M = V D V\<^sup>T + I / a\<close> and \<open>M R = V\<close>, the
  vector \<open>x = a (D b - D V\<^sup>T R D b)\<close> solves \<open>(diag(s) + V\<^sup>T V) x = b\<close>. The key step:
  \<open>V x = R D b\<close>.
\<close>

lemma woodbury_Vx:
  fixes V R M :: "nat \<Rightarrow> nat \<Rightarrow> real" and d y :: "nat \<Rightarrow> real"
  assumes a: "a \<noteq> 0"
    and MR: "\<And>c j. c < k \<Longrightarrow> j < n \<Longrightarrow> (\<Sum>e<k. M c e * R e j) = V c j"
    and M: "\<And>c e. c < k \<Longrightarrow> e < k \<Longrightarrow>
              M c e = (\<Sum>j<n. V c j * (d j * V e j)) + (if c = e then 1 / a else 0)"
    and c: "c < k"
  defines "z \<equiv> \<lambda>e. \<Sum>j<n. R e j * y j"
  defines "w \<equiv> \<lambda>j. \<Sum>e<k. V e j * z e"
  shows "(\<Sum>j<n. V c j * (a * (y j - d j * w j))) = z c"
proof -
  have Mz: "(\<Sum>e<k. M c e * z e) = (\<Sum>j<n. V c j * y j)"
  proof -
    have "(\<Sum>e<k. M c e * z e) = (\<Sum>j<n. (\<Sum>e<k. M c e * R e j) * y j)"
      by (simp add: z_def sum_distrib_left sum_distrib_right mult.assoc sum.swap [of _ "{..<k}"])
    also have "\<dots> = (\<Sum>j<n. V c j * y j)" using MR c by simp
    finally show ?thesis .
  qed
  have VDw: "(\<Sum>j<n. V c j * (d j * w j)) = (\<Sum>e<k. M c e * z e) - z c / a"
  proof -
    have "(\<Sum>j<n. V c j * (d j * w j)) = (\<Sum>e<k. (\<Sum>j<n. V c j * (d j * V e j)) * z e)"
      by (simp add: w_def sum_distrib_left sum_distrib_right mult_ac sum.swap [of _ "{..<n}"])
    also have "\<dots> = (\<Sum>e<k. M c e * z e - (if c = e then 1 / a else 0) * z e)"
      using M c by (intro sum.cong) (simp_all add: algebra_simps)
    also have "\<dots> = (\<Sum>e<k. M c e * z e) - z c / a"
    proof -
      have "(\<Sum>e<k. (if c = e then 1 / a else 0) * z e) = (\<Sum>e<k. if c = e then z e / a else 0)"
        by (rule sum.cong) auto
      also have "\<dots> = z c / a" using c by simp
      finally show ?thesis by (simp add: sum_subtractf)
    qed
    finally show ?thesis .
  qed
  have "(\<Sum>j<n. V c j * (a * (y j - d j * w j)))
        = a * (\<Sum>j<n. V c j * y j) - a * (\<Sum>j<n. V c j * (d j * w j))"
    by (simp add: sum_distrib_left sum_subtractf algebra_simps)
  also have "\<dots> = a * (\<Sum>j<n. V c j * y j) - a * ((\<Sum>j<n. V c j * y j) - z c / a)"
    using Mz VDw by simp
  also have "\<dots> = z c" using a by (simp add: right_diff_distrib)
  finally show ?thesis .
qed

lemma woodbury_identity_fun:
  fixes V R M :: "nat \<Rightarrow> nat \<Rightarrow> real" and s d b :: "nat \<Rightarrow> real"
  assumes a: "a \<noteq> 0"
    and sd: "\<And>i. i < n \<Longrightarrow> a * s i * d i = 1"
    and MR: "\<And>c j. c < k \<Longrightarrow> j < n \<Longrightarrow> (\<Sum>e<k. M c e * R e j) = V c j"
    and M: "\<And>c e. c < k \<Longrightarrow> e < k \<Longrightarrow>
              M c e = (\<Sum>j<n. V c j * (d j * V e j)) + (if c = e then 1 / a else 0)"
    and i: "i < n"
  defines "y \<equiv> \<lambda>j. d j * b j"
  defines "x \<equiv> \<lambda>j. a * (y j - d j * (\<Sum>l<n. (\<Sum>c<k. V c j * R c l) * y l))"
  shows "s i * x i + (\<Sum>j<n. (\<Sum>c<k. V c i * V c j) * x j) = b i"
proof -
  define z where "z = (\<lambda>e. \<Sum>j<n. R e j * y j)"
  define w where "w = (\<lambda>j. \<Sum>e<k. V e j * z e)"
  have wj: "(\<Sum>l<n. (\<Sum>c<k. V c j * R c l) * y l) = w j" for j
    by (simp add: w_def z_def sum_distrib_left sum_distrib_right mult_ac sum.swap [of _ "{..<n}"])
  have x: "x = (\<lambda>j. a * (y j - d j * w j))" by (simp add: x_def wj)
  have Vx: "(\<Sum>j<n. V c j * x j) = z c" if "c < k" for c
    unfolding x z_def w_def by (rule woodbury_Vx [OF a MR M that])
  have "(\<Sum>j<n. (\<Sum>c<k. V c i * V c j) * x j) = (\<Sum>c<k. V c i * (\<Sum>j<n. V c j * x j))"
    by (simp add: sum_distrib_left sum_distrib_right mult_ac sum.swap [of _ "{..<n}"])
  also have "\<dots> = w i" using Vx by (simp add: w_def)
  finally have quad: "(\<Sum>j<n. (\<Sum>c<k. V c i * V c j) * x j) = w i" .
  have "s i * x i = (a * s i * d i) * (b i - w i)"
    by (simp add: x y_def algebra_simps)
  also have "\<dots> = b i - w i" using sd [OF i] by simp
  finally show ?thesis using quad by simp
qed

subsection \<open>The scale\<close>

lemma shift_scale_Inr:
  assumes "shift_scale shift = Inr (a, d)"
  shows "0 < a" "length d = length shift" "\<And>i. i < length shift \<Longrightarrow> a * shift ! i * d ! i = 1"
proof -
  have nz: "list_all (\<lambda>x. x \<noteq> 0) shift" using assms
    by (auto simp: shift_scale_def split: if_splits)
  then obtain j where tm: "torch_max (map abs (map (\<lambda>x. 1 / x) shift)) = Some (a, j)"
    and d: "d = map (\<lambda>x. x / a) (map (\<lambda>x. 1 / x) shift)"
    using assms by (auto simp: shift_scale_def Let_def split: option.splits)
  from torch_max_spec(1,2) [OF tm] nz show "0 < a" by (auto simp: list_all_length)
  then show "length d = length shift" "\<And>i. i < length shift \<Longrightarrow> a * shift ! i * d ! i = 1"
    using nz by (auto simp: d list_all_length)
qed

subsection \<open>The solve on lists\<close>

lemma shifted_mat_nth:
  assumes V: "mat_dims k n V" and d: "length d = n" and c: "c < k" and e: "e < k"
  shows "shifted_mat V d a ! c ! e = (\<Sum>j<n. V ! c ! j * (d ! j * V ! e ! j)) + (if c = e then 1 / a else 0)"
proof -
  have lV: "length V = k" and rV: "\<And>i. i < k \<Longrightarrow> length (V ! i) = n"
    using V by (auto simp: mat_dims_def list_all_length)
  let ?T = "scale_rows d (mat_T n V)"
  have lT: "length ?T = n" using d by simp
  have T: "\<And>j. j < n \<Longrightarrow> ?T ! j ! e = d ! j * V ! e ! j"
    using d lV e by (simp add: nth_scale_rows nth_mat_T nth_col)
  have "mat_mul V ?T k ! c ! e = (\<Sum>j<n. V ! c ! j * (d ! j * V ! e ! j))"
    using c e lV rV [OF c] lT T by (simp add: nth_mat_mul dot_sum nth_col)
  moreover have "map (map (\<lambda>x. x / a)) (eye k) ! c ! e = (if c = e then 1 / a else 0)"
    using c e by (simp add: nth_eye)
  ultimately show ?thesis
    using c e lV d by (simp add: shifted_mat_def nth_mat_add)
qed

lemma length_shifted_mat:
  "mat_dims k n V \<Longrightarrow> length d = n \<Longrightarrow> mat_dims k k (shifted_mat V d a)"
  by (simp add: shifted_mat_def mat_dims_def list_all_length mat_add_def)

lemma mat_mul_entry_sum:
  assumes "mat_dims k c1 A" "mat_dims c1 c2 B" "i < k" "j < c2"
  shows "mat_mul A B c2 ! i ! j = (\<Sum>e<c1. A ! i ! e * B ! e ! j)"
  using assms by (simp add: nth_mat_mul dot_sum nth_col mat_dims_def list_all_length)

text \<open>Entry \<open>i\<close> of \<open>(diag(shift) + V\<^sup>T V) x\<close>.\<close>

lemma woodbury_system_nth:
  assumes V: "mat_dims k n V" and n: "length shift = n" and x: "length x = n" and i: "i < n"
  shows "woodbury_system V shift x ! i = shift ! i * x ! i + (\<Sum>j<n. (\<Sum>c<k. V ! c ! i * V ! c ! j) * x ! j)"
proof -
  have lV: "length V = k" using V by (simp add: mat_dims_def)
  have "mat_mul (mat_T n V) V n ! i ! j = (\<Sum>c<k. V ! c ! i * V ! c ! j)" if "j < n" for j
    using i that lV by (simp add: nth_mat_mul nth_mat_T dot_sum nth_col)
  then show ?thesis
    using i x n lV by (simp add: woodbury_system_def nth_mat_vec dot_sum)
qed

text \<open>
  The computation of lines 141--145 solves the shifted system for every scale \<open>a > 0\<close>
  and normalised reciprocal \<open>d\<close> with \<open>a shift[i] d[i] = 1\<close>, not only the one line 104
  chooses.
\<close>

lemma woodbury_core_system:
  assumes a: "0 < a" and ld: "length d = n" and sd: "\<And>i. i < n \<Longrightarrow> a * shift ! i * d ! i = 1"
    and V: "mat_dims k n V" and n: "length shift = n" and b: "length b = n"
    and R: "mat_dims k n R" and MR: "mat_mul (shifted_mat V d a) R n = V"
  shows "length (woodbury_solve_core b V R a d) = n \<and>
         woodbury_system V shift (woodbury_solve_core b V R a d) = b"
proof -
  have lV: "length V = k" and lR: "length R = k"
    using V R by (simp_all add: mat_dims_def)
  define y where "y = map2 (*) d b"
  define W where "W = mat_mul (mat_T n V) R n"
  define x where "x = map (\<lambda>v. v * a) (map2 (-) y (map2 (*) d (mat_vec W y)))"
  have solve: "woodbury_solve_core b V R a d = x"
    by (simp add: woodbury_solve_core_def x_def y_def W_def ld Let_def)
  have ly: "length y = n" using ld b by (simp add: y_def)
  have W: "W ! j ! l = (\<Sum>c<k. V ! c ! j * R ! c ! l)" if "j < n" "l < n" for j l
    using that lV lR by (simp add: W_def nth_mat_mul nth_mat_T dot_sum nth_col)
  have lW: "length (W ! j) = n" if "j < n" for j using that by (simp add: W_def)
  have Wy: "mat_vec W y ! j = (\<Sum>l<n. (\<Sum>c<k. V ! c ! j * R ! c ! l) * (d ! l * b ! l))"
    if "j < n" for j
    using that lW ly W ld b by (simp add: nth_mat_vec dot_sum y_def W_def)
  have lx: "length x = n" using ly ld by (simp add: x_def W_def)
  have xj: "x ! j = a * (d ! j * b ! j - d ! j * (\<Sum>l<n. (\<Sum>c<k. V ! c ! j * R ! c ! l) * (d ! l * b ! l)))"
    if "j < n" for j
    using that ly ld b Wy by (simp add: x_def y_def W_def mult.commute)
  let ?M = "shifted_mat V d a"
  have Mdims: "mat_dims k k ?M" using V ld by (rule length_shifted_mat)
  have MR': "(\<Sum>e<k. ?M ! c ! e * R ! e ! j) = V ! c ! j" if "c < k" "j < n" for c j
    using mat_mul_entry_sum [OF Mdims R that] MR by simp
  have Mce: "?M ! c ! e = (\<Sum>j<n. V ! c ! j * (d ! j * V ! e ! j)) + (if c = e then 1 / a else 0)"
    if "c < k" "e < k" for c e
    using shifted_mat_nth [OF V ld that] .
  have sys: "woodbury_system V shift x ! i = shift ! i * x ! i + (\<Sum>j<n. (\<Sum>c<k. V ! c ! i * V ! c ! j) * x ! j)"
    if "i < n" for i
    using woodbury_system_nth [OF V n lx that] .
  define X where "X = (\<lambda>j. a * (d ! j * b ! j - d ! j * (\<Sum>l<n. (\<Sum>c<k. V ! c ! j * R ! c ! l) * (d ! l * b ! l))))"
  have xX: "x ! j = X j" if "j < n" for j using xj [OF that] by (simp add: X_def)
  have "woodbury_system V shift x ! i = b ! i" if "i < n" for i
  proof -
    have "shift ! i * X i + (\<Sum>j<n. (\<Sum>c<k. V ! c ! i * V ! c ! j) * X j) = b ! i"
      using woodbury_identity_fun [where V = "\<lambda>c j. V ! c ! j" and R = "\<lambda>e j. R ! e ! j"
          and M = "\<lambda>c e. ?M ! c ! e" and s = "\<lambda>i. shift ! i" and d = "\<lambda>i. d ! i"
          and b = "\<lambda>i. b ! i", OF _ sd MR' Mce that] a
      by (simp add: X_def)
    moreover have "(\<Sum>j<n. (\<Sum>c<k. V ! c ! i * V ! c ! j) * x ! j)
                 = (\<Sum>j<n. (\<Sum>c<k. V ! c ! i * V ! c ! j) * X j)"
      by (rule sum.cong) (simp_all add: xX)
    ultimately show ?thesis using sys [OF that] xX [OF that] by simp
  qed
  moreover have "length (woodbury_system V shift x) = n"
    using lx n by (simp add: woodbury_system_def)
  ultimately have "woodbury_system V shift x = b"
    using b by (simp add: nth_equalityI)
  with solve lx show ?thesis by blast
qed

lemma woodbury_solve_system:
  assumes ss: "shift_scale shift = Inr (a, d)" and V: "mat_dims k n V"
    and n: "length shift = n" and b: "length b = n"
    and R: "mat_dims k n R" and MR: "mat_mul (shifted_mat V d a) R n = V"
  shows "\<exists>x. woodbury_solve b V R shift = Inr x \<and> length x = n \<and> woodbury_system V shift x = b"
proof -
  have a: "0 < a" and ld: "length d = n" and sd: "\<And>i. i < n \<Longrightarrow> a * shift ! i * d ! i = 1"
    using shift_scale_Inr [OF ss] n by auto
  from woodbury_core_system [OF a ld sd V n b R MR] ss show ?thesis
    by (simp add: woodbury_solve_def)
qed

lemma woodbury_factor_Inr:
  assumes "woodbury_factor chol_solve V shift = Inr R"
  obtains a d where "shift_scale shift = Inr (a, d)" "chol_solve (shifted_mat V d a) V = Inr R"
  using assms by (auto simp: woodbury_factor_def split: sum.splits)

lemma sym_shifted_mat:
  assumes V: "mat_dims k n V" and ld: "length d = n"
  shows "sym_mat (shifted_mat V d a)"
proof -
  have "length (shifted_mat V d a) = k" using length_shifted_mat [OF V ld] by (simp add: mat_dims_def)
  moreover have "shifted_mat V d a ! c ! e = shifted_mat V d a ! e ! c" if "c < k" "e < k" for c e
    using shifted_mat_nth [OF V ld that] shifted_mat_nth [OF V ld that(2,1)]
    by (simp add: mult_ac)
  ultimately show ?thesis by (simp add: sym_mat_def)
qed

lemma solver_correct_mat_mul:
  assumes sc: "solver_correct chol_solve" and cs: "chol_solve M V = Inr R" and sym: "sym_mat M"
    and V: "mat_dims k n V" and M: "length M = k"
  shows "mat_dims k n R \<and> mat_mul M R n = V"
proof (cases "k = 0")
  case True
  have "length R = 0" using sc cs sym M True by (simp add: solver_correct_def)
  with True V M show ?thesis by (simp add: mat_dims_def mat_mul_def)
next
  case False
  then obtain r rs where "V = r # rs" "length r = n" using V
    by (cases V) (auto simp: mat_dims_def)
  then have "ncols V = n" by (simp add: ncols_def)
  with sc cs sym V M show ?thesis by (auto simp: solver_correct_def mat_dims_def list_all_iff)
qed

lemma woodbury_factor_then_solve:
  assumes sc: "solver_correct chol_solve" and f: "woodbury_factor chol_solve V shift = Inr R"
    and V: "mat_dims k n V" and n: "length shift = n" and b: "length b = n"
  shows "\<exists>x. woodbury_solve b V R shift = Inr x \<and> length x = n \<and> woodbury_system V shift x = b"
proof -
  obtain a d where ss: "shift_scale shift = Inr (a, d)"
    and cs: "chol_solve (shifted_mat V d a) V = Inr R"
    using f by (rule woodbury_factor_Inr)
  have ld: "length d = n" using shift_scale_Inr(2) [OF ss] n by simp
  then have "length (shifted_mat V d a) = k"
    using length_shifted_mat [OF V] by (simp add: mat_dims_def)
  then have "mat_dims k n R \<and> mat_mul (shifted_mat V d a) R n = V"
    using solver_correct_mat_mul [OF sc cs sym_shifted_mat [OF V ld] V] by simp
  then show ?thesis using woodbury_solve_system [OF ss V n b] by blast
qed

subsection \<open>Claims\<close>

text \<open>
  C3. Factor then solve: for any dense solve meeting its contract, if \<open>woodbury_factor\<close>
  returns a factor \<open>R\<close> for a \<open>k \<times> n\<close> matrix \<open>V\<close> and a shift of length \<open>n\<close>, then
  \<open>woodbury_solve\<close> returns, for every right-hand side \<open>b\<close> of length \<open>n\<close>, a vector \<open>x\<close>
  with \<open>(diag(shift) + V\<^sup>T V) x = b\<close>.
\<close>

theorem woodbury_correct:
  assumes "solver_correct chol_solve" "woodbury_factor chol_solve V shift = Inr R"
    "mat_dims k n V" "length shift = n" "length b = n"
  shows "\<exists>x. woodbury_solve b V R shift = Inr x \<and> woodbury_system V shift x = b"
  using woodbury_factor_then_solve [OF assms] by blast

text \<open>A dense solve that meets the contract on the example of the spec.\<close>

lemma example_solver_correct:
  "solver_correct (\<lambda>M B. if M = [[2, 0], [0, 2]] \<and> B = [[1, 0, 0], [0, 1, 0]]
      then Inr [[1 / 2, 0, 0], [0, 1 / 2, 0]] else Inl NonFinite)"
  by (simp add: solver_correct_def ncols_def mat_mul_def dot_def col_def upt_rec)

lemma example_factor:
  "woodbury_factor (\<lambda>M B. if M = [[2, 0], [0, 2]] \<and> B = [[1, 0, 0], [0, 1, 0]]
      then Inr [[1 / 2, 0, 0], [0, 1 / 2, 0]] else Inl NonFinite) [[1, 0, 0], [0, 1, 0]] [1, 1, 1]
   = Inr [[1 / 2, 0, 0], [0, 1 / 2, 0]]"
  by (simp add: woodbury_factor_def shift_scale_def shifted_mat_def mat_add_def mat_mul_def
      scale_rows_def mat_T_def eye_def dot_def col_def upt_rec)

theorem woodbury_correct_witness:
  "woodbury_solve [2, 2, 1] [[1, 0, 0], [0, 1, 0]] [[1 / 2, 0, 0], [0, 1 / 2, 0]] [1, 1, 1] = Inr [1, 1, 1]
   \<and> woodbury_system [[1, 0, 0], [0, 1, 0]] [1, 1, 1] [1, 1, 1] = [2, 2, 1]"
proof -
  have "\<exists>x. woodbury_solve [2, 2, 1] [[1, 0, 0], [0, 1, 0]] [[1 / 2, 0, 0], [0, 1 / 2, 0]] [1, 1, 1] = Inr x
     \<and> woodbury_system [[1, 0, 0], [0, 1, 0]] [1, 1, 1] x = [2, 2, 1]"
    by (rule woodbury_correct [OF example_solver_correct example_factor, of 2 3])
      (simp_all add: mat_dims_def)
  moreover have "woodbury_solve [2, 2, 1] [[1, 0, 0], [0, 1, 0]] [[1 / 2, 0, 0], [0, 1 / 2, 0]] [1, 1, 1] = Inr [1, 1, 1]"
    by (simp add: woodbury_solve_def woodbury_solve_core_def shift_scale_def mat_vec_def mat_mul_def mat_T_def dot_def col_def upt_rec)
  ultimately show ?thesis by auto
qed

text \<open>
  C5. The example of the spec (section 8): for \<open>V = [[1,0,0],[0,1,0]]\<close>, \<open>shift = [1,1,1]\<close>
  and \<open>b = [2,2,1]\<close>, factor then solve returns exactly \<open>[1,1,1]\<close>, whatever correct dense
  solve computed the factor.
\<close>

theorem woodbury_spec_example:
  assumes sc: "solver_correct chol_solve"
    and f: "woodbury_factor chol_solve [[1, 0, 0], [0, 1, 0]] [1, 1, 1] = Inr R"
  shows "woodbury_solve [2, 2, 1] [[1, 0, 0], [0, 1, 0]] R [1, 1, 1] = Inr [1, 1, 1]"
proof -
  obtain x where x: "woodbury_solve [2, 2, 1] [[1, 0, 0], [0, 1, 0]] R [1, 1, 1] = Inr x"
    and lx: "length x = 3"
    and sys: "woodbury_system [[1, 0, 0], [0, 1, 0]] [1, 1, 1] x = [2, 2, 1]"
    using woodbury_factor_then_solve [OF sc f, of 2 3 "[2, 2, 1]"] by (auto simp: mat_dims_def)
  obtain x0 x1 x2 where x3: "x = [x0, x1, x2]"
    using lx by (cases x rule: rev_cases) (auto simp: length_Suc_conv numeral_3_eq_3)
  from sys have "x0 = 1 \<and> x1 = 1 \<and> x2 = 1"
    by (simp add: x3 woodbury_system_def mat_vec_def mat_mul_def mat_T_def dot_def col_def upt_rec)
  with x x3 show ?thesis by simp
qed

theorem woodbury_spec_example_witness:
  "woodbury_solve [2, 2, 1] [[1, 0, 0], [0, 1, 0]] [[1 / 2, 0, 0], [0, 1 / 2, 0]] [1, 1, 1] = Inr [1, 1, 1]"
  by (rule woodbury_spec_example [OF example_solver_correct example_factor])
text \<open>
  C6. The normalisation of lines 104--105 and 135--136: the scale is positive and the scaled
  reciprocal shifts lie in \<open>[-1, 1]\<close>, one of them with magnitude exactly 1.
\<close>

theorem shift_scale_bounds:
  assumes "shift_scale shift = Inr (a, d)"
  shows "0 < a \<and> length d = length shift \<and> (\<forall>x\<in>set d. \<bar>x\<bar> \<le> 1) \<and> (\<exists>x\<in>set d. \<bar>x\<bar> = 1)"
proof -
  have nz: "list_all (\<lambda>x. x \<noteq> 0) shift" using assms
    by (auto simp: shift_scale_def split: if_splits)
  then obtain j where tm: "torch_max (map abs (map (\<lambda>x. 1 / x) shift)) = Some (a, j)"
    and d: "d = map (\<lambda>x. x / a) (map (\<lambda>x. 1 / x) shift)"
    using assms by (auto simp: shift_scale_def Let_def split: option.splits)
  note sp = torch_max_spec [OF tm]
  have a: "0 < a" using sp(1,2) nz by (auto simp: list_all_length)
  have "\<bar>(1 / x) / a\<bar> \<le> 1" if "x \<in> set shift" for x
  proof -
    have "\<bar>1 / x\<bar> \<le> a" using sp(3) that by auto
    then show ?thesis using a by (cases "x = 0") (auto simp: field_simps abs_mult)
  qed
  then have "\<forall>x\<in>set d. \<bar>x\<bar> \<le> 1" by (auto simp: d)
  moreover have "\<bar>d ! j\<bar> = 1" "j < length d" using sp(1,2) a by (auto simp: d abs_div_pos)
  ultimately show ?thesis using a d by (metis length_map nth_mem)
qed
theorem shift_scale_bounds_witness:
  "shift_scale [2, -4] = Inr (1 / 2, [1, -1 / 2]) \<and>
   0 < (1 / 2 :: real) \<and> \<bar>-1 / 2 :: real\<bar> \<le> 1 \<and> (\<exists>x\<in>set [1, -1 / 2 :: real]. \<bar>x\<bar> = 1)"
proof -
  have h: "shift_scale [2, -4] = Inr (1 / 2, [1, -1 / 2])"
    by (simp add: shift_scale_def)
  show ?thesis using shift_scale_bounds [OF h] h by simp
qed

end
