(* ===== verification/Woodbury_Matrix.thy ===== *)
theory Woodbury_Matrix
  imports Woodbury_Correct
begin

text \<open>
  The Woodbury solve for a matrix right-hand side, and the solve as an inverse. Column
  \<open>j\<close> of the matrix solve is the vector solve of column \<open>j\<close> (\<open>col\<close> commutes with every
  operation of lines 141--145), so every column of the result solves the shifted system.
  For a positive shift the system is injective, which makes the solve a left inverse of
  \<open>woodbury_system\<close>: solving the right-hand side computed from \<open>x\<close> gives back \<open>x\<close>.
\<close>

subsection \<open>Columns\<close>

lemma col_mat_mul: "j < c \<Longrightarrow> col (mat_mul A B c) j = mat_vec A (col B j)"
  by (simp add: col_def mat_mul_def mat_vec_def)

lemma col_scale_rows:
  "length v = length A \<Longrightarrow> \<forall>r\<in>set A. j < length r \<Longrightarrow>
   col (scale_rows v A) j = map2 (*) v (col A j)"
  by (induction v A rule: list_induct2) (simp_all add: col_def scale_rows_def)

lemma col_map2_minus:
  "length X = length Y \<Longrightarrow> \<forall>r\<in>set X. j < length r \<Longrightarrow> \<forall>r\<in>set Y. j < length r \<Longrightarrow>
   col (map2 (map2 (-)) X Y) j = map2 (-) (col X j) (col Y j)"
  by (induction X Y rule: list_induct2) (simp_all add: col_def)

lemma col_map_map: "\<forall>r\<in>set X. j < length r \<Longrightarrow> col (map (map f) X) j = map f (col X j)"
  by (induction X) (simp_all add: col_def)

lemma set_scale_rows_length:
  "r \<in> set (scale_rows v A) \<Longrightarrow> \<exists>r'\<in>set A. length r = length r'"
  by (auto simp: scale_rows_def set_zip)

lemma length_rows_mat_mul: "r \<in> set (mat_mul A B c) \<Longrightarrow> length r = c"
  by (auto simp: mat_mul_def)

text \<open>Column \<open>j\<close> of the matrix solve is the vector solve of column \<open>j\<close>, errors included.\<close>

lemma woodbury_solve_mat_col:
  assumes rows: "\<forall>r\<in>set B. length r = ncols B" and j: "j < ncols B"
    and n: "length B = length shift"
  shows "map_sum id (\<lambda>X. col X j) (woodbury_solve_mat B V W shift) = woodbury_solve (col B j) V W shift"
proof (cases "shift_scale shift")
  case (Inl e)
  then show ?thesis by (simp add: woodbury_solve_mat_def woodbury_solve_def)
next
  case (Inr p)
  then obtain a d where ss: "shift_scale shift = Inr (a, d)" by (cases p) auto
  have ld: "length d = length shift" using shift_scale_Inr(2) [OF ss] .
  define G where "G = mat_mul (mat_T (length shift) V) W (length shift)"
  define SB where "SB = scale_rows d B"
  define D where "D = scale_rows d (mat_mul G SB (ncols B))"
  have jB: "\<forall>r\<in>set B. j < length r" using rows j by simp
  have jSB: "\<forall>r\<in>set SB. j < length r"
    using jB by (auto simp: SB_def dest: set_scale_rows_length)
  have jD: "\<forall>r\<in>set D. j < length r"
    using j by (auto simp: D_def dest!: set_scale_rows_length dest: length_rows_mat_mul)
  have lSB: "length SB = length shift" and lD: "length D = length shift"
    using ld n by (simp_all add: SB_def D_def G_def)
  have cSB: "col SB j = map2 (*) d (col B j)"
    using ld n jB by (simp add: SB_def col_scale_rows)
  have cD: "col D j = map2 (*) d (mat_vec G (col SB j))"
    using ld n j by (simp add: D_def col_scale_rows col_mat_mul G_def SB_def length_rows_mat_mul)
  have "woodbury_solve_mat B V W shift = Inr (map (map (\<lambda>x. x * a)) (map2 (map2 (-)) SB D))"
    by (simp add: woodbury_solve_mat_def ss G_def SB_def D_def Let_def)
  moreover have "woodbury_solve (col B j) V W shift =
      Inr (map (\<lambda>x. x * a) (map2 (-) (col SB j) (map2 (*) d (mat_vec G (col SB j)))))"
    by (simp add: woodbury_solve_def woodbury_solve_core_def ss ld G_def cSB Let_def)
  moreover have "col (map (map (\<lambda>x. x * a)) (map2 (map2 (-)) SB D)) j =
      map (\<lambda>x. x * a) (map2 (-) (col SB j) (map2 (*) d (mat_vec G (col SB j))))"
  proof -
    have "\<forall>r\<in>set (map2 (map2 (-)) SB D). j < length r"
      using jSB jD by (auto simp: set_zip)
    then have "col (map (map (\<lambda>x. x * a)) (map2 (map2 (-)) SB D)) j =
        map (\<lambda>x. x * a) (col (map2 (map2 (-)) SB D) j)"
      by (rule col_map_map)
    also have "col (map2 (map2 (-)) SB D) j = map2 (-) (col SB j) (col D j)"
      using lSB lD jSB jD by (intro col_map2_minus) simp_all
    finally show ?thesis by (simp only: cD)
  qed
  ultimately show ?thesis by simp
qed

subsection \<open>A positive shift makes the system injective\<close>

lemma gram_quad:
  fixes V :: "nat \<Rightarrow> nat \<Rightarrow> real"
  shows "(\<Sum>i<n. z i * (\<Sum>j<n. (\<Sum>c<k. V c i * V c j) * z j)) = (\<Sum>c<k. (\<Sum>i<n. V c i * z i)\<^sup>2)"
proof -
  have "(\<Sum>i<n. z i * (\<Sum>j<n. (\<Sum>c<k. V c i * V c j) * z j)) =
        (\<Sum>i<n. \<Sum>j<n. \<Sum>c<k. (V c i * z i) * (V c j * z j))"
    by (simp add: sum_distrib_left sum_distrib_right mult_ac)
  also have "\<dots> = (\<Sum>i<n. \<Sum>c<k. \<Sum>j<n. (V c i * z i) * (V c j * z j))"
    by (rule sum.cong) (simp_all add: sum.swap [of _ "{..<n}"])
  also have "\<dots> = (\<Sum>c<k. \<Sum>i<n. \<Sum>j<n. (V c i * z i) * (V c j * z j))"
    by (rule sum.swap)
  also have "\<dots> = (\<Sum>c<k. (\<Sum>i<n. V c i * z i)\<^sup>2)"
    by (simp add: power2_eq_square sum_product)
  finally show ?thesis .
qed

lemma woodbury_system_inj:
  assumes V: "mat_dims k n V" and n: "length shift = n" and pos: "\<forall>s\<in>set shift. 0 < s"
    and x: "length x = n" and y: "length y = n"
    and eq: "woodbury_system V shift x = woodbury_system V shift y"
  shows "x = y"
proof -
  define z where "z i = x ! i - y ! i" for i
  define G where "G i j = (\<Sum>c<k. V ! c ! i * V ! c ! j)" for i j
  have E: "shift ! i * z i + (\<Sum>j<n. G i j * z j) = 0" if i: "i < n" for i
  proof -
    have "shift ! i * x ! i + (\<Sum>j<n. G i j * x ! j) = shift ! i * y ! i + (\<Sum>j<n. G i j * y ! j)"
      using woodbury_system_nth [OF V n x i] woodbury_system_nth [OF V n y i] eq
      by (simp add: G_def)
    then show ?thesis
      by (simp add: z_def algebra_simps sum_subtractf)
  qed
  have "(\<Sum>i<n. z i * (shift ! i * z i + (\<Sum>j<n. G i j * z j))) = 0"
    using E by simp
  then have "(\<Sum>i<n. shift ! i * (z i)\<^sup>2) + (\<Sum>c<k. (\<Sum>i<n. V ! c ! i * z i)\<^sup>2) = 0"
    using gram_quad [where z = z and V = "\<lambda>c i. V ! c ! i" and n = n and k = k]
    by (simp add: G_def algebra_simps power2_eq_square sum.distrib)
  moreover have nn: "\<forall>i\<in>{..<n}. 0 \<le> shift ! i * (z i)\<^sup>2"
  proof
    fix i assume "i \<in> {..<n}"
    then have "0 < shift ! i" using pos n by (simp add: nth_mem)
    then show "0 \<le> shift ! i * (z i)\<^sup>2" by simp
  qed
  moreover have "0 \<le> (\<Sum>c<k. (\<Sum>i<n. V ! c ! i * z i)\<^sup>2)"
    by (intro sum_nonneg) simp
  moreover have "0 \<le> (\<Sum>i<n. shift ! i * (z i)\<^sup>2)"
  proof (rule sum_nonneg)
    fix i assume "i \<in> {..<n}"
    with nn show "0 \<le> shift ! i * (z i)\<^sup>2" by blast
  qed
  ultimately have s0: "(\<Sum>i<n. shift ! i * (z i)\<^sup>2) = 0" by linarith
  have z0: "\<forall>i\<in>{..<n}. shift ! i * (z i)\<^sup>2 = 0"
    using sum_nonneg_eq_0_iff [of "{..<n}" "\<lambda>i. shift ! i * (z i)\<^sup>2"] nn s0 by blast
  have "z i = 0" if i: "i < n" for i
  proof -
    have sp: "0 < shift ! i" using i pos n by (simp add: nth_mem)
    have "shift ! i * (z i)\<^sup>2 = 0" using z0 i by simp
    with sp show ?thesis by simp
  qed
  then show ?thesis using x y by (intro nth_equalityI) (simp_all add: z_def)
qed

lemma shift_scale_Nil: "shift_scale [] = Inl EmptyReduction"
  by (simp add: shift_scale_def)

lemma length_woodbury_system:
  "mat_dims k n V \<Longrightarrow> length shift = n \<Longrightarrow> length x = n \<Longrightarrow> length (woodbury_system V shift x) = n"
  by (simp add: woodbury_system_def)

subsection \<open>Claims\<close>

text \<open>
  C15. With a factor computed by \<open>woodbury_factor\<close> and any dense solve that meets its
  contract, \<open>woodbury_solve\<close> on an \<open>n \<times> c\<close> matrix right-hand side \<open>B\<close> (the branch of
  line 138) returns a matrix \<open>X\<close> each of whose columns solves
  \<open>(diag(shift) + V\<^sup>T V) x = B[:, j]\<close>.
\<close>

theorem woodbury_correct_mat:
  assumes sc: "solver_correct chol_solve" and f: "woodbury_factor chol_solve V shift = Inr R"
    and V: "mat_dims k n V" and n: "length shift = n" and B: "mat_dims n c B"
  shows "\<exists>X. woodbury_solve_rhs (Mat B) V R shift = Inr (Mat X) \<and>
             (\<forall>j<c. woodbury_system V shift (col X j) = col B j)"
proof -
  obtain a d where ss: "shift_scale shift = Inr (a, d)"
    using f by (rule woodbury_factor_Inr)
  then have "shift \<noteq> []" by (auto simp: shift_scale_Nil)
  then have lB: "length B = n" and Bne: "B \<noteq> []" and rows: "\<forall>r\<in>set B. length r = c"
    using B n by (auto simp: mat_dims_def list_all_iff)
  then have nc: "ncols B = c" by (cases B) (auto simp: ncols_def)
  obtain X where X: "woodbury_solve_mat B V R shift = Inr X"
    using ss by (simp add: woodbury_solve_mat_def Let_def)
  have "woodbury_system V shift (col X j) = col B j" if j: "j < c" for j
  proof -
    have "woodbury_solve (col B j) V R shift = Inr (col X j)"
      using woodbury_solve_mat_col [of B j shift V R] rows nc j lB n X by simp
    moreover obtain x where "woodbury_solve (col B j) V R shift = Inr x"
      and "woodbury_system V shift x = col B j"
      using woodbury_factor_then_solve [OF sc f V n, of "col B j"] lB by auto
    ultimately show ?thesis by simp
  qed
  with X show ?thesis by (simp add: woodbury_solve_rhs_def)
qed

theorem woodbury_correct_mat_witness:
  "woodbury_solve_rhs (Mat [[2, 0], [2, 0], [1, 1]]) [[1, 0, 0], [0, 1, 0]]
     [[1 / 2, 0, 0], [0, 1 / 2, 0]] [1, 1, 1] = Inr (Mat [[1, 0], [1, 0], [1, 1]]) \<and>
   (\<exists>X. woodbury_solve_rhs (Mat [[2, 0], [2, 0], [1, 1]]) [[1, 0, 0], [0, 1, 0]]
          [[1 / 2, 0, 0], [0, 1 / 2, 0]] [1, 1, 1] = Inr (Mat X) \<and>
        (\<forall>j<2. woodbury_system [[1, 0, 0], [0, 1, 0]] [1, 1, 1] (col X j) = col [[2, 0], [2, 0], [1, 1]] j))"
proof -
  have dims: "mat_dims 2 3 [[1, 0, 0], [0, 1, (0::real)]]" "mat_dims 3 2 [[2, 0], [2, 0], [1, (1::real)]]"
    by (simp_all add: mat_dims_def)
  have "woodbury_solve_rhs (Mat [[2, 0], [2, 0], [1, 1]]) [[1, 0, 0], [0, 1, 0]]
     [[1 / 2, 0, 0], [0, 1 / 2, 0]] [1, 1, 1] = Inr (Mat [[1, 0], [1, 0], [1, 1]])"
    by (simp add: woodbury_solve_rhs_def woodbury_solve_mat_def shift_scale_def ncols_def
        scale_rows_def mat_mul_def mat_T_def dot_def col_def upt_rec)
  with woodbury_correct_mat [OF example_solver_correct example_factor dims(1) _ dims(2)]
  show ?thesis by simp
qed

text \<open>
  C16. For a positive shift the solve inverts the system: solving the right-hand side
  \<open>(diag(shift) + V\<^sup>T V) x\<close> with a factor from \<open>woodbury_factor\<close> returns \<open>x\<close> itself.
\<close>

theorem woodbury_roundtrip:
  assumes sc: "solver_correct chol_solve" and f: "woodbury_factor chol_solve V shift = Inr R"
    and V: "mat_dims k n V" and n: "length shift = n" and pos: "\<forall>s\<in>set shift. 0 < s"
    and x: "length x = n"
  shows "woodbury_solve (woodbury_system V shift x) V R shift = Inr x"
proof -
  have lb: "length (woodbury_system V shift x) = n"
    using V n x by (rule length_woodbury_system)
  obtain y where y: "woodbury_solve (woodbury_system V shift x) V R shift = Inr y"
    and ly: "length y = n" and sy: "woodbury_system V shift y = woodbury_system V shift x"
    using woodbury_factor_then_solve [OF sc f V n lb] by blast
  have "y = x" by (rule woodbury_system_inj [OF V n pos ly x sy])
  with y show ?thesis by simp
qed

theorem woodbury_roundtrip_witness:
  "woodbury_solve (woodbury_system [[1, 0, 0], [0, 1, 0]] [1, 1, 1] [1, 1, 1]) [[1, 0, 0], [0, 1, 0]]
     [[1 / 2, 0, 0], [0, 1 / 2, 0]] [1, 1, 1] = Inr [1, 1, 1]"
proof -
  have dims: "mat_dims 2 3 [[1, 0, 0], [0, 1, (0::real)]]" by (simp add: mat_dims_def)
  show ?thesis
    using woodbury_roundtrip [OF example_solver_correct example_factor dims, of "[1, 1, 1]"] by simp
qed

end
