(* ===== verification/Woodbury_Batch.thy ===== *)
theory Woodbury_Batch
  imports Woodbury_Matrix
begin

text \<open>
  The batched Woodbury solver. The scale is the largest \<open>|1/shift|\<close> over the whole
  batch, so an element is normalised by a scale that depends on the other elements. The
  computation of each element is nevertheless correct for any positive scale
  (\<open>woodbury_core_system\<close>), so every element of a batched solve solves its own shifted
  system, and for positive shifts it equals the unbatched solve of that element.
\<close>

text \<open>
  A dense solve for the examples: it knows the three diagonal systems the examples below
  produce and fails on any other.
\<close>

definition example_batch_solver :: "mat \<Rightarrow> mat \<Rightarrow> num_error + mat" where
  "example_batch_solver M B = (if B = [[1, 0, 0], [0, 1, 0]] then
      (if M = [[2, 0], [0, 2]] then Inr [[1 / 2, 0, 0], [0, 1 / 2, 0]]
       else if M = [[3 / 2, 0], [0, 3 / 2]] then Inr [[2 / 3, 0, 0], [0, 2 / 3, 0]]
       else if M = [[3, 0], [0, 3]] then Inr [[1 / 3, 0, 0], [0, 1 / 3, 0]]
       else Inl NonFinite)
    else Inl NonFinite)"

lemma all_Inr_Inr:
  "all_Inr rs = Inr xs \<Longrightarrow> length xs = length rs \<and> (\<forall>i<length rs. rs ! i = Inr (xs ! i))"
proof (induction rs arbitrary: xs rule: all_Inr.induct)
  case (3 x rs)
  then obtain xs' where "all_Inr rs = Inr xs'" "xs = x # xs'"
    by (auto split: sum.splits)
  with "3.IH" show ?case by (auto simp: nth_Cons')
qed auto

lemma batch_shift_scale_Inr:
  assumes ss: "batch_shift_scale shifts = Inr (a, ds)"
  shows "0 < a" "length ds = length shifts"
    "\<And>i. i < length shifts \<Longrightarrow> length (ds ! i) = length (shifts ! i)"
    "\<And>i j. i < length shifts \<Longrightarrow> j < length (shifts ! i) \<Longrightarrow> a * shifts ! i ! j * ds ! i ! j = 1"
proof -
  have nz: "list_all (list_all (\<lambda>x. x \<noteq> 0)) shifts"
    using ss by (auto simp: batch_shift_scale_def split: if_splits)
  let ?xs = "map abs (concat (map (map (\<lambda>x. 1 / x)) shifts))"
  obtain jj where tm: "torch_max ?xs = Some (a, jj)"
    and ds: "ds = map (map (\<lambda>x. x / a)) (map (map (\<lambda>x. 1 / x)) shifts)"
    using ss nz by (auto simp: batch_shift_scale_def Let_def split: option.splits)
  have "a \<in> set ?xs" using torch_max_spec(1,2) [OF tm] by (metis nth_mem)
  then show a: "0 < a" using nz by (auto simp: list_all_iff)
  show "length ds = length shifts" by (simp add: ds)
  show "\<And>i. i < length shifts \<Longrightarrow> length (ds ! i) = length (shifts ! i)" by (simp add: ds)
  fix i j assume i: "i < length shifts" and j: "j < length (shifts ! i)"
  have "list_all (\<lambda>x. x \<noteq> 0) (shifts ! i)" using nz i by (simp add: list_all_length)
  then have "shifts ! i ! j \<noteq> 0" using j by (simp add: list_all_length)
  with a i j show "a * shifts ! i ! j * ds ! i ! j = 1" by (simp add: ds)
qed

text \<open>Every element of a batched solve solves its own system, for any batch scale.\<close>

lemma woodbury_batch_solves:
  assumes sc: "solver_correct chol_solve" and f: "woodbury_factor_batch chol_solve Vs shifts = Inr Rs"
    and dims: "\<forall>i<length shifts. mat_dims k n (Vs ! i) \<and> length (shifts ! i) = n \<and> length (bs ! i) = n"
    and lb: "length bs = length shifts"
  shows "\<exists>xs. woodbury_solve_batch bs Vs Rs shifts = Inr xs \<and> length xs = length shifts \<and>
           (\<forall>i<length shifts. length (xs ! i) = n \<and> woodbury_system (Vs ! i) (shifts ! i) (xs ! i) = bs ! i)"
proof -
  have lV: "length Vs = length shifts" using f by (auto simp: woodbury_factor_batch_def split: if_splits)
  obtain a ds where ss: "batch_shift_scale shifts = Inr (a, ds)"
    and rs: "all_Inr (map2 (\<lambda>V d. chol_solve (shifted_mat V d a) V) Vs ds) = Inr Rs"
    using f lV by (auto simp: woodbury_factor_batch_def split: sum.splits)
  note bs = batch_shift_scale_Inr [OF ss]
  have lR: "length Rs = length shifts" and
    cs: "\<And>i. i < length shifts \<Longrightarrow> chol_solve (shifted_mat (Vs ! i) (ds ! i) a) (Vs ! i) = Inr (Rs ! i)"
    using all_Inr_Inr [OF rs] lV bs(2) by auto
  define xs where "xs = map (\<lambda>i. woodbury_solve_core (bs ! i) (Vs ! i) (Rs ! i) a (ds ! i)) [0..<length shifts]"
  have sol: "woodbury_solve_batch bs Vs Rs shifts = Inr xs"
    using lb lV lR ss by (simp add: woodbury_solve_batch_def xs_def)
  have each: "length (xs ! i) = n \<and> woodbury_system (Vs ! i) (shifts ! i) (xs ! i) = bs ! i"
    if i: "i < length shifts" for i
  proof -
    have V: "mat_dims k n (Vs ! i)" and n: "length (shifts ! i) = n" and b: "length (bs ! i) = n"
      using dims i by auto
    have ld: "length (ds ! i) = n" using bs(3) [OF i] n by simp
    have M: "length (shifted_mat (Vs ! i) (ds ! i) a) = k"
      using length_shifted_mat [OF V ld] by (simp add: mat_dims_def)
    have R: "mat_dims k n (Rs ! i) \<and> mat_mul (shifted_mat (Vs ! i) (ds ! i) a) (Rs ! i) n = Vs ! i"
      by (rule solver_correct_mat_mul [OF sc cs [OF i] sym_shifted_mat [OF V ld] V M])
    have sd: "\<And>j. j < n \<Longrightarrow> a * shifts ! i ! j * ds ! i ! j = 1" using bs(4) [OF i] n by simp
    from woodbury_core_system [OF bs(1) ld sd V n b] R i show ?thesis
      by (simp add: xs_def)
  qed
  from sol each show ?thesis by (auto simp: xs_def)
qed

lemma example_batch_solver_correct: "solver_correct example_batch_solver"
  by (simp add: example_batch_solver_def solver_correct_def ncols_def mat_mul_def dot_def col_def upt_rec)

subsection \<open>Claims\<close>

text \<open>
  C18. With a batched factor from \<open>woodbury_factor\<close> and any dense solve that meets its
  contract, the batched \<open>woodbury_solve\<close> returns, for every batch element, the solution
  of that element's system \<open>(diag(shift_i) + V_i\<^sup>T V_i) x_i = b_i\<close>, although the scale
  of line 104 is shared by the whole batch.
\<close>

theorem woodbury_batch_correct:
  assumes "solver_correct chol_solve" "woodbury_factor_batch chol_solve Vs shifts = Inr Rs"
    "\<forall>i<length shifts. mat_dims k n (Vs ! i) \<and> length (shifts ! i) = n \<and> length (bs ! i) = n"
    "length bs = length shifts"
  shows "\<exists>xs. woodbury_solve_batch bs Vs Rs shifts = Inr xs \<and>
           (\<forall>i<length shifts. woodbury_system (Vs ! i) (shifts ! i) (xs ! i) = bs ! i)"
  using woodbury_batch_solves [OF assms] by blast

lemma example_batch_factor:
  "woodbury_factor_batch example_batch_solver [[[1, 0, 0], [0, 1, 0]], [[1, 0, 0], [0, 1, 0]]]
     [[1, 1, 1], [2, 2, 2]] = Inr [[[1 / 2, 0, 0], [0, 1 / 2, 0]], [[2 / 3, 0, 0], [0, 2 / 3, 0]]]"
  by (simp add: woodbury_factor_batch_def batch_shift_scale_def example_batch_solver_def
      shifted_mat_def mat_add_def mat_mul_def scale_rows_def mat_T_def eye_def dot_def col_def upt_rec)

theorem woodbury_batch_correct_witness:
  "woodbury_factor_batch example_batch_solver [[[1, 0, 0], [0, 1, 0]], [[1, 0, 0], [0, 1, 0]]]
     [[1, 1, 1], [2, 2, 2]] = Inr [[[1 / 2, 0, 0], [0, 1 / 2, 0]], [[2 / 3, 0, 0], [0, 2 / 3, 0]]] \<and>
   (\<exists>xs. woodbury_solve_batch [[2, 2, 1], [3, 3, 2]] [[[1, 0, 0], [0, 1, 0]], [[1, 0, 0], [0, 1, 0]]]
           [[[1 / 2, 0, 0], [0, 1 / 2, 0]], [[2 / 3, 0, 0], [0, 2 / 3, 0]]] [[1, 1, 1], [2, 2, 2]] = Inr xs \<and>
        (\<forall>i<2. woodbury_system ([[[1, 0, 0], [0, 1, 0]], [[1, 0, 0], [0, 1, 0]]] ! i)
                  ([[1, 1, 1], [2, 2, 2]] ! i) (xs ! i) = [[2, 2, 1], [3, 3, 2]] ! i))"
proof -
  have dims: "\<forall>i<length [[1, 1, 1], [2, 2, (2::real)]].
      mat_dims 2 3 ([[[1, 0, 0], [0, 1, 0]], [[1, 0, 0], [0, 1, (0::real)]]] ! i) \<and>
      length ([[1, 1, 1], [2, 2, (2::real)]] ! i) = 3 \<and> length ([[2, 2, 1], [3, 3, (2::real)]] ! i) = 3"
    by (simp add: mat_dims_def All_less_Suc numeral_2_eq_2)
  from woodbury_batch_correct [OF example_batch_solver_correct example_batch_factor dims] example_batch_factor
  show ?thesis by (simp add: numeral_2_eq_2)
qed

text \<open>
  C19. Batch invariance of the Woodbury solve (spec, section 8), for positive shifts: the
  batched solve of element \<open>i\<close> equals the unbatched solve of that element with its own
  factor, although the two use different scales.
\<close>

theorem woodbury_batch_invariant:
  assumes sc: "solver_correct chol_solve" and fb: "woodbury_factor_batch chol_solve Vs shifts = Inr Rs"
    and dims: "\<forall>i<length shifts. mat_dims k n (Vs ! i) \<and> length (shifts ! i) = n \<and> length (bs ! i) = n"
    and lb: "length bs = length shifts" and pos: "\<forall>i<length shifts. \<forall>s\<in>set (shifts ! i). 0 < s"
    and sb: "woodbury_solve_batch bs Vs Rs shifts = Inr xs" and i: "i < length shifts"
    and f: "woodbury_factor chol_solve (Vs ! i) (shifts ! i) = Inr R"
  shows "woodbury_solve (bs ! i) (Vs ! i) R (shifts ! i) = Inr (xs ! i)"
proof -
  have V: "mat_dims k n (Vs ! i)" and n: "length (shifts ! i) = n" and b: "length (bs ! i) = n"
    using dims i by auto
  have xi: "length (xs ! i) = n" "woodbury_system (Vs ! i) (shifts ! i) (xs ! i) = bs ! i"
    using woodbury_batch_solves [OF sc fb dims lb] sb i by auto
  obtain y where y: "woodbury_solve (bs ! i) (Vs ! i) R (shifts ! i) = Inr y"
    and ly: "length y = n" and sy: "woodbury_system (Vs ! i) (shifts ! i) y = bs ! i"
    using woodbury_factor_then_solve [OF sc f V n b] by blast
  have "y = xs ! i"
    using woodbury_system_inj [OF V n _ ly xi(1)] pos i sy xi(2) by simp
  with y show ?thesis by simp
qed

theorem woodbury_batch_invariant_witness:
  "woodbury_solve ([[2, 2, 1], [3, 3, 2]] ! 1) ([[[1, 0, 0], [0, 1, 0]], [[1, 0, 0], [0, 1, 0]]] ! 1)
     [[1 / 3, 0, 0], [0, 1 / 3, 0]] ([[1, 1, 1], [2, 2, 2]] ! 1) =
   map_sum id (\<lambda>xs. xs ! 1) (woodbury_solve_batch [[2, 2, 1], [3, 3, 2]]
     [[[1, 0, 0], [0, 1, 0]], [[1, 0, 0], [0, 1, 0]]]
     [[[1 / 2, 0, 0], [0, 1 / 2, 0]], [[2 / 3, 0, 0], [0, 2 / 3, 0]]] [[1, 1, 1], [2, 2, 2]])"
proof -
  let ?Vs = "[[[1, 0, 0], [0, 1, 0]], [[1, 0, 0], [0, 1, (0::real)]]]"
  let ?sh = "[[1, 1, 1], [2, 2, (2::real)]]"
  let ?bs = "[[2, 2, 1], [3, 3, (2::real)]]"
  let ?Rs = "[[[1 / 2, 0, 0], [0, 1 / 2, 0]], [[2 / 3, 0, 0], [0, 2 / 3, (0::real)]]]"
  have dims: "\<forall>i<length ?sh. mat_dims 2 3 (?Vs ! i) \<and> length (?sh ! i) = 3 \<and> length (?bs ! i) = 3"
    by (simp add: mat_dims_def All_less_Suc numeral_2_eq_2)
  have pos: "\<forall>i<length ?sh. \<forall>s\<in>set (?sh ! i). 0 < s"
    by (simp add: All_less_Suc numeral_2_eq_2)
  obtain xs where sb: "woodbury_solve_batch ?bs ?Vs ?Rs ?sh = Inr xs"
    by (simp add: woodbury_solve_batch_def batch_shift_scale_def)
  have f: "woodbury_factor example_batch_solver (?Vs ! 1) (?sh ! 1) = Inr [[1 / 3, 0, 0], [0, 1 / 3, 0]]"
    by (simp add: woodbury_factor_def shift_scale_def example_batch_solver_def shifted_mat_def
        mat_add_def mat_mul_def scale_rows_def mat_T_def eye_def dot_def col_def upt_rec)
  from woodbury_batch_invariant [OF example_batch_solver_correct example_batch_factor dims _ pos sb _ f] sb
  show ?thesis by simp
qed

end
