(* ===== verification/Cholesky_Solve.thy ===== *)
theory Cholesky_Solve
  imports Woodbury
begin

text \<open>
  The dense solve of lines 117--118: \<open>torch.cholesky\<close> factors the symmetric \<open>k \<times> k\<close>
  matrix \<open>M = L L\<^sup>T\<close> with \<open>L\<close> lower triangular and a positive diagonal, and raises when
  \<open>M\<close> is not positive definite; \<open>torch.potrs(B, L, upper=False)\<close> solves \<open>L L\<^sup>T X = B\<close>
  by a forward and a backward substitution. These are library routines, not code of the
  repository: they are modelled by the textbook algorithms that compute the same results
  in exact arithmetic (the row-by-row Cholesky-Banachiewicz scheme and column-wise
  substitution), with the shape checks \<open>torch\<close> performs. \<open>chol_potrs\<close> is the composed
  solve that \<open>woodbury_factor\<close> takes as its parameter.
\<close>

subsection \<open>Definitions\<close>

text \<open>A list built left to right, each entry computed from the entries before it.\<close>

definition build :: "('a list \<Rightarrow> nat \<Rightarrow> 'a) \<Rightarrow> nat \<Rightarrow> 'a list" where
  "build g n = foldl (\<lambda>acc i. acc @ [g acc i]) [] [0..<n]"

text \<open>
  Row \<open>i\<close> of the factor from the rows \<open>Ls\<close> before it: the entries left of the diagonal,
  \<open>L[i, j] = (M[i, j] - \<Sum>p<j. L[i, p] L[j, p]) / L[j, j]\<close>, then the diagonal entry
  \<open>sqrt (M[i, i] - \<Sum>p<i. L[i, p]\<^sup>2)\<close>, which must be the root of a positive number.
\<close>

definition chol_row_entries :: "mat \<Rightarrow> mat \<Rightarrow> nat \<Rightarrow> vec" where
  "chol_row_entries M Ls i =
     build (\<lambda>acc j. (M ! i ! j - sum_list (map (\<lambda>p. acc ! p * Ls ! j ! p) [0..<j])) / Ls ! j ! j) i"

definition chol_row :: "nat \<Rightarrow> mat \<Rightarrow> mat \<Rightarrow> nat \<Rightarrow> num_error + vec" where
  "chol_row k M Ls i =
    (let l = chol_row_entries M Ls i;
         d = M ! i ! i - sum_list (map (\<lambda>x. x\<^sup>2) l)
     in if d \<le> 0 then Inl NotPositiveDefinite else Inr (l @ sqrt d # replicate (k - Suc i) 0))"

text \<open>One row of the factor, appended unless a previous row failed.\<close>

definition chol_step :: "nat \<Rightarrow> mat \<Rightarrow> num_error + mat \<Rightarrow> nat \<Rightarrow> num_error + mat" where
  "chol_step k M r i =
    (case r of
       Inl e \<Rightarrow> Inl e
     | Inr Ls \<Rightarrow> (case chol_row k M Ls i of Inl e \<Rightarrow> Inl e | Inr row \<Rightarrow> Inr (Ls @ [row])))"

definition cholesky :: "mat \<Rightarrow> num_error + mat" where
  "cholesky M =
    (let k = length M
     in if \<not> list_all (\<lambda>r. length r = k) M then Inl InvalidShape
        else foldl (chol_step k M) (Inr []) [0..<k])"

text \<open>\<open>L y = b\<close> for lower triangular \<open>L\<close>, top to bottom.\<close>

definition fwd_sub :: "mat \<Rightarrow> vec \<Rightarrow> vec" where
  "fwd_sub L b =
     build (\<lambda>ys i. (b ! i - sum_list (map (\<lambda>p. L ! i ! p * ys ! p) [0..<i])) / L ! i ! i) (length L)"

text \<open>\<open>L\<^sup>T x = y\<close>, bottom to top: entry \<open>r\<close> of the list built is \<open>x[k - 1 - r]\<close>.\<close>

definition back_sub :: "mat \<Rightarrow> vec \<Rightarrow> vec" where
  "back_sub L y =
    (let k = length L
     in rev (build (\<lambda>zs r. let i = k - 1 - r
                          in (y ! i - sum_list (map (\<lambda>q. L ! (k - 1 - q) ! i * zs ! q) [0..<r]))
                             / L ! i ! i) k))"

text \<open>\<open>torch.potrs(B, L, upper=False)\<close>: both substitutions on every column of \<open>B\<close>.\<close>

definition potrs :: "mat \<Rightarrow> mat \<Rightarrow> mat" where
  "potrs B L = mat_T (length L) (map (\<lambda>j. back_sub L (fwd_sub L (col B j))) [0..<ncols B])"

text \<open>
  Lines 117--118 as one solve, with the shape checks of the two calls: \<open>B\<close> must have one
  row per row of \<open>M\<close> and rows of one length.
\<close>

definition chol_potrs :: "mat \<Rightarrow> mat \<Rightarrow> num_error + mat" where
  "chol_potrs M B =
    (if length B \<noteq> length M \<or> \<not> list_all (\<lambda>r. length r = ncols B) B then Inl InvalidShape
     else case cholesky M of
            Inl e \<Rightarrow> Inl e
          | Inr L \<Rightarrow> Inr (potrs B L))"

text \<open>
  The rows computed so far: each has length \<open>k\<close>, is zero right of the diagonal, has a
  positive diagonal entry, and reproduces \<open>M\<close> on and left of the diagonal.
\<close>

definition chol_inv :: "nat \<Rightarrow> mat \<Rightarrow> mat \<Rightarrow> bool" where
  "chol_inv k M Ls \<longleftrightarrow>
     (\<forall>a<length Ls. length (Ls ! a) = k \<and> (\<forall>p. a < p \<longrightarrow> p < k \<longrightarrow> Ls ! a ! p = 0) \<and>
        0 < Ls ! a ! a \<and> (\<forall>b\<le>a. (\<Sum>p<Suc b. Ls ! a ! p * Ls ! b ! p) = M ! a ! b))"

text \<open>
  \<open>M\<close> is positive definite: its quadratic form is positive at every vector that is not
  zero on the indices of \<open>M\<close>.
\<close>

definition pd_mat :: "mat \<Rightarrow> bool" where
  "pd_mat M \<longleftrightarrow>
     (\<forall>x. (\<exists>i<length M. x i \<noteq> 0) \<longrightarrow> 0 < (\<Sum>i<length M. \<Sum>j<length M. x i * M ! i ! j * x j))"

subsection \<open>Building a list entry by entry\<close>

lemma length_build [simp]: "length (build g n) = n"
  by (induction n) (simp_all add: build_def)

lemma build_Suc: "build g (Suc n) = build g n @ [g (build g n) n]"
  by (simp add: build_def)

lemma build_nth: "i < n \<Longrightarrow> build g n ! i = g (take i (build g n)) i"
proof (induction n)
  case (Suc n)
  show ?case
  proof (cases "i < n")
    case True
    with Suc show ?thesis by (simp add: build_Suc nth_append)
  next
    case False
    with Suc.prems have "i = n" by simp
    then show ?thesis by (simp add: build_Suc nth_append)
  qed
qed simp

lemma sum_list_map_upt: "sum_list (map f [0..<n]) = (\<Sum>p<n. f p)"
  by (simp add: sum_list_map_eq_sum_count2 atLeast0LessThan [symmetric] sum.list_conv_set_nth)

text \<open>Entry \<open>i\<close> of a list whose entries depend on a sum over the entries before them.\<close>

lemma build_nth_sum:
  assumes "i < n"
  shows "build (\<lambda>acc j. G j (sum_list (map (\<lambda>p. F j p (acc ! p)) [0..<j]))) n ! i =
         G i (\<Sum>p<i. F i p (build (\<lambda>acc j. G j (sum_list (map (\<lambda>p. F j p (acc ! p)) [0..<j]))) n ! p))"
proof -
  let ?g = "\<lambda>acc j. G j (sum_list (map (\<lambda>p. F j p (acc ! p)) [0..<j]))"
  have "build ?g n ! i = ?g (take i (build ?g n)) i" by (rule build_nth [OF assms])
  also have "sum_list (map (\<lambda>p. F i p (take i (build ?g n) ! p)) [0..<i]) =
             (\<Sum>p<i. F i p (build ?g n ! p))"
    by (simp add: sum_list_map_upt)
  finally show ?thesis by simp
qed

subsection \<open>The Cholesky factor\<close>

lemma chol_row_entries_nth:
  assumes "j < i"
  shows "chol_row_entries M Ls i ! j =
         (M ! i ! j - (\<Sum>p<j. chol_row_entries M Ls i ! p * Ls ! j ! p)) / Ls ! j ! j"
  using build_nth_sum [OF assms, where G = "\<lambda>j s. (M ! i ! j - s) / Ls ! j ! j"
      and F = "\<lambda>j p x. x * Ls ! j ! p"]
  by (simp add: chol_row_entries_def)

lemma chol_row_step:
  assumes inv: "chol_inv k M Ls" and i: "length Ls = i" "i < k"
    and r: "chol_row k M Ls i = Inr row"
  shows "chol_inv k M (Ls @ [row])"
proof -
  define l where "l = chol_row_entries M Ls i"
  define d where "d = M ! i ! i - sum_list (map (\<lambda>x. x\<^sup>2) l)"
  have ll: "length l = i" by (simp add: l_def chol_row_entries_def)
  have d0: "0 < d" and row: "row = l @ sqrt d # replicate (k - Suc i) 0"
    using r by (auto simp: chol_row_def l_def d_def Let_def split: if_splits)
  have lrow: "length row = k" using row ll i by simp
  have rl: "row ! p = l ! p" if "p < i" for p using that row ll by (simp add: nth_append)
  have ri: "row ! i = sqrt d" using row ll by (simp add: nth_append)
  have rz: "row ! p = 0" if "i < p" "p < k" for p
    using that row ll by (simp add: nth_append nth_Cons')
  have old: "Ls ! b ! b > 0 \<and> (\<forall>p. b < p \<longrightarrow> p < k \<longrightarrow> Ls ! b ! p = 0)" if "b < i" for b
    using inv that i by (simp add: chol_inv_def)
  have lb: "(\<Sum>p<Suc b. row ! p * Ls ! b ! p) = M ! i ! b" if b: "b < i" for b
  proof -
    have "(\<Sum>p<Suc b. row ! p * Ls ! b ! p) = (\<Sum>p<b. l ! p * Ls ! b ! p) + l ! b * Ls ! b ! b"
      using b rl by simp
    also have "l ! b = (M ! i ! b - (\<Sum>p<b. l ! p * Ls ! b ! p)) / Ls ! b ! b"
      unfolding l_def using b by (rule chol_row_entries_nth)
    finally show ?thesis using old [OF b] by simp
  qed
  have li: "(\<Sum>p<Suc i. row ! p * row ! p) = M ! i ! i"
  proof -
    have "(\<Sum>p<i. row ! p * row ! p) = sum_list (map (\<lambda>x. x\<^sup>2) l)"
      using rl ll by (simp add: sum_list_sum_nth atLeast0LessThan power2_eq_square)
    then show ?thesis using ri d0 by (simp add: d_def)
  qed
  show ?thesis
    unfolding chol_inv_def
  proof (intro allI impI)
    fix a assume a: "a < length (Ls @ [row])"
    show "length ((Ls @ [row]) ! a) = k \<and> (\<forall>p. a < p \<longrightarrow> p < k \<longrightarrow> (Ls @ [row]) ! a ! p = 0) \<and>
        0 < (Ls @ [row]) ! a ! a \<and>
        (\<forall>b\<le>a. (\<Sum>p<Suc b. (Ls @ [row]) ! a ! p * (Ls @ [row]) ! b ! p) = M ! a ! b)"
    proof (cases "a < i")
      case True
      then show ?thesis using inv i by (simp add: chol_inv_def nth_append)
    next
      case False
      with a i have ai: "a = i" by simp
      have "(\<Sum>p<Suc b. (Ls @ [row]) ! i ! p * (Ls @ [row]) ! b ! p) = M ! i ! b" if "b \<le> i" for b
      proof (cases "b < i")
        case True
        then show ?thesis using lb [OF True] i by (simp add: nth_append)
      next
        case False
        with that have "b = i" by simp
        then show ?thesis using li i by (simp add: nth_append)
      qed
      then show ?thesis using ai i lrow ri d0 rz by (simp add: nth_append)
    qed
  qed
qed

lemma chol_fold:
  assumes "n \<le> k" "foldl (chol_step k M) (Inr []) [0..<n] = Inr Ls"
  shows "length Ls = n \<and> chol_inv k M Ls"
  using assms
proof (induction n arbitrary: Ls)
  case 0
  then show ?case by (simp add: chol_inv_def)
next
  case (Suc n)
  have eq: "chol_step k M (foldl (chol_step k M) (Inr []) [0..<n]) n = Inr Ls"
    using Suc.prems(2) by simp
  then obtain Ls0 where f: "foldl (chol_step k M) (Inr []) [0..<n] = Inr Ls0"
    by (cases "foldl (chol_step k M) (Inr []) [0..<n]") (simp_all add: chol_step_def)
  with eq obtain row where r: "chol_row k M Ls0 n = Inr row" and Ls: "Ls = Ls0 @ [row]"
    by (auto simp: chol_step_def split: sum.splits)
  have "length Ls0 = n \<and> chol_inv k M Ls0" using Suc.IH [OF _ f] Suc.prems(1) by simp
  with r Suc.prems(1) Ls show ?case by (simp add: chol_row_step)
qed

lemma cholesky_Inr:
  assumes "cholesky M = Inr L"
  shows "length L = length M" "chol_inv (length M) M L"
proof -
  have "foldl (chol_step (length M) M) (Inr []) [0..<length M] = Inr L"
    using assms by (simp add: cholesky_def Let_def split: if_splits)
  from chol_fold [OF order_refl this]
  show "length L = length M" "chol_inv (length M) M L" by simp_all
qed

lemma chol_lower:
  assumes "cholesky M = Inr L"
  shows "\<And>a p. a < length L \<Longrightarrow> a < p \<Longrightarrow> p < length L \<Longrightarrow> L ! a ! p = 0"
    "\<And>a. a < length L \<Longrightarrow> L ! a ! a \<noteq> 0"
  using cholesky_Inr [OF assms] by (auto simp: chol_inv_def)

lemma cholesky_square:
  assumes "cholesky M = Inr L"
  shows "\<forall>r\<in>set M. length r = length M"
proof (rule ccontr)
  assume "\<not> (\<forall>r\<in>set M. length r = length M)"
  then have "cholesky M = Inl InvalidShape" by (simp add: cholesky_def list_all_iff)
  with assms show False by simp
qed

text \<open>\<open>L L\<^sup>T = M\<close> entrywise on the rows built so far, for a symmetric \<open>M\<close>.\<close>

lemma chol_inv_product:
  assumes inv: "chol_inv (length M) M Ls" and n: "length Ls \<le> length M" and sym: "sym_mat M"
    and a: "a < length Ls" and b: "b < length Ls"
  shows "(\<Sum>p<length Ls. Ls ! a ! p * Ls ! b ! p) = M ! a ! b"
proof -
  let ?n = "length Ls"
  have lower: "(\<Sum>p<?n. Ls ! a ! p * Ls ! b ! p) = M ! a ! b"
    if "a < ?n" "b < ?n" and ba: "b \<le> a" for a b
  proof -
    have "(\<Sum>p<?n. Ls ! a ! p * Ls ! b ! p) = (\<Sum>p<Suc b. Ls ! a ! p * Ls ! b ! p)"
      using inv that n by (intro sum.mono_neutral_right) (auto simp: chol_inv_def)
    also have "\<dots> = M ! a ! b" using inv that ba by (simp add: chol_inv_def)
    finally show ?thesis .
  qed
  show ?thesis
  proof (cases "b \<le> a")
    case True
    then show ?thesis using lower [OF a b] by simp
  next
    case False
    then have "(\<Sum>p<?n. Ls ! b ! p * Ls ! a ! p) = M ! b ! a" using lower [OF b a] by simp
    then show ?thesis using sym a b n by (simp add: sym_mat_def mult.commute)
  qed
qed

lemma cholesky_product:
  assumes ch: "cholesky M = Inr L" and sym: "sym_mat M" and a: "a < length M" and b: "b < length M"
  shows "(\<Sum>p<length M. L ! a ! p * L ! b ! p) = M ! a ! b"
  using chol_inv_product [OF cholesky_Inr(2) [OF ch] _ sym] cholesky_Inr(1) [OF ch] a b by simp

subsection \<open>A positive definite matrix factors\<close>

text \<open>
  The quadratic form of a Gram matrix plus one diagonal entry \<open>d\<close>, at a vector \<open>z\<close>
  orthogonal to every Gram column and with \<open>z n = 1\<close>, is \<open>d\<close>.
\<close>

text \<open>A double sum of products of inner products is a sum of products of sums.\<close>

lemma sum_gram:
  fixes f g :: "'a \<Rightarrow> 'b \<Rightarrow> real"
  shows "(\<Sum>a\<in>A. \<Sum>b\<in>B. \<Sum>p\<in>P. f a p * g b p) = (\<Sum>p\<in>P. (\<Sum>a\<in>A. f a p) * (\<Sum>b\<in>B. g b p))"
proof -
  have "(\<Sum>a\<in>A. \<Sum>b\<in>B. \<Sum>p\<in>P. f a p * g b p) = (\<Sum>a\<in>A. \<Sum>p\<in>P. \<Sum>b\<in>B. f a p * g b p)"
    by (rule sum.cong [OF refl]) (rule sum.swap)
  also have "\<dots> = (\<Sum>p\<in>P. \<Sum>a\<in>A. \<Sum>b\<in>B. f a p * g b p)"
    by (rule sum.swap)
  also have "\<dots> = (\<Sum>p\<in>P. (\<Sum>a\<in>A. f a p) * (\<Sum>b\<in>B. g b p))"
    by (simp only: sum_product)
  finally show ?thesis .
qed

lemma quad_gram_plus:
  fixes R :: "nat \<Rightarrow> nat \<Rightarrow> real"
  assumes M: "\<And>a b. a < Suc n \<Longrightarrow> b < Suc n \<Longrightarrow>
      Mf a b = (\<Sum>p<n. R a p * R b p) + (if a = n \<and> b = n then d else 0)"
    and w: "\<And>p. p < n \<Longrightarrow> (\<Sum>a<Suc n. z a * R a p) = 0" and zn: "z n = 1"
  shows "(\<Sum>a<Suc n. \<Sum>b<Suc n. z a * Mf a b * z b) = d"
proof -
  have "(\<Sum>a<Suc n. \<Sum>b<Suc n. z a * Mf a b * z b) =
        (\<Sum>a<Suc n. \<Sum>b<Suc n. \<Sum>p<n. z a * R a p * (z b * R b p)) +
        (\<Sum>a<Suc n. \<Sum>b<Suc n. z a * (if a = n \<and> b = n then d else 0) * z b)"
    using M by (simp add: sum.distrib distrib_left distrib_right sum_distrib_left sum_distrib_right mult_ac)
  also have "(\<Sum>a<Suc n. \<Sum>b<Suc n. z a * (if a = n \<and> b = n then d else 0) * z b) = d"
    using zn by (simp add: if_distrib if_distribR sum.If_cases)
  also have "(\<Sum>a<Suc n. \<Sum>b<Suc n. \<Sum>p<n. z a * R a p * (z b * R b p)) =
             (\<Sum>p<n. (\<Sum>a<Suc n. z a * R a p) * (\<Sum>b<Suc n. z b * R b p))"
    by (rule sum_gram)
  also have "\<dots> = 0" using w by simp
  finally show ?thesis by simp
qed

subsection \<open>The substitutions\<close>

lemma length_fwd_sub [simp]: "length (fwd_sub L b) = length L"
  by (simp add: fwd_sub_def)

lemma length_back_sub [simp]: "length (back_sub L y) = length L"
  by (simp add: back_sub_def Let_def)

lemma fwd_sub_nth:
  "i < length L \<Longrightarrow> fwd_sub L b ! i = (b ! i - (\<Sum>p<i. L ! i ! p * fwd_sub L b ! p)) / L ! i ! i"
  using build_nth_sum [where G = "\<lambda>i s. (b ! i - s) / L ! i ! i" and F = "\<lambda>i p x. L ! i ! p * x"]
  by (simp add: fwd_sub_def)

text \<open>
  The substitutions solve their triangular systems when \<open>L\<close> is lower triangular with a
  non-zero diagonal.
\<close>

lemma fwd_sub_solves:
  assumes low: "\<And>a p. a < length L \<Longrightarrow> a < p \<Longrightarrow> p < length L \<Longrightarrow> L ! a ! p = 0"
    and diag: "\<And>a. a < length L \<Longrightarrow> L ! a ! a \<noteq> 0" and i: "i < length L"
  shows "(\<Sum>p<length L. L ! i ! p * fwd_sub L b ! p) = b ! i"
proof -
  let ?y = "fwd_sub L b"
  have "(\<Sum>p<length L. L ! i ! p * ?y ! p) = (\<Sum>p<Suc i. L ! i ! p * ?y ! p)"
    using low i by (intro sum.mono_neutral_right) auto
  also have "\<dots> = (\<Sum>p<i. L ! i ! p * ?y ! p) + L ! i ! i * ?y ! i" by simp
  also have "\<dots> = b ! i" using fwd_sub_nth [OF i, of b] diag [OF i] by simp
  finally show ?thesis .
qed

lemma back_sub_nth:
  assumes i: "i < length L"
  shows "back_sub L y ! i =
         (y ! i - (\<Sum>p\<in>{Suc i..<length L}. L ! p ! i * back_sub L y ! p)) / L ! i ! i"
proof -
  let ?k = "length L"
  define g where "g = (\<lambda>zs r. let i = ?k - 1 - r
      in (y ! i - sum_list (map (\<lambda>q. L ! (?k - 1 - q) ! i * zs ! q) [0..<r])) / L ! i ! i)"
  define z where "z = build g ?k"
  have x: "back_sub L y = rev z" by (simp add: back_sub_def z_def g_def Let_def)
  have lz: "length z = ?k" by (simp add: z_def)
  have xz: "back_sub L y ! p = z ! (?k - 1 - p)" if "p < ?k" for p
    using that lz by (simp add: x rev_nth)
  define r where "r = ?k - 1 - i"
  have ri: "r < ?k" "?k - 1 - r = i" using i by (simp_all add: r_def)
  have "z ! r = (y ! i - (\<Sum>q<r. L ! (?k - 1 - q) ! i * z ! q)) / L ! i ! i"
    using build_nth_sum [OF ri(1), where G = "\<lambda>r s. (y ! (?k - 1 - r) - s) / L ! (?k - 1 - r) ! (?k - 1 - r)"
        and F = "\<lambda>r q x. L ! (?k - 1 - q) ! (?k - 1 - r) * x"] ri(2)
    by (simp add: z_def g_def Let_def)
  also have "(\<Sum>q<r. L ! (?k - 1 - q) ! i * z ! q) =
             (\<Sum>p\<in>{Suc i..<?k}. L ! p ! i * back_sub L y ! p)"
  proof (rule sum.reindex_bij_witness [where i = "\<lambda>p. ?k - 1 - p" and j = "\<lambda>q. ?k - 1 - q"])
    fix q assume q: "q \<in> {..<r}"
    then show "?k - 1 - (?k - 1 - q) = q" "?k - 1 - q \<in> {Suc i..<?k}" using i by (auto simp: r_def)
    have "back_sub L y ! (?k - 1 - q) = z ! q" using q xz [of "?k - 1 - q"] i by (simp add: r_def)
    then show "L ! (?k - 1 - q) ! i * back_sub L y ! (?k - 1 - q) = L ! (?k - 1 - q) ! i * z ! q"
      by simp
  next
    fix p assume p: "p \<in> {Suc i..<?k}"
    then show "?k - 1 - (?k - 1 - p) = p" "?k - 1 - p \<in> {..<r}" by (auto simp: r_def)
  qed
  finally show ?thesis using xz [OF i] by (simp add: r_def)
qed

lemma back_sub_solves:
  assumes low: "\<And>a p. a < length L \<Longrightarrow> a < p \<Longrightarrow> p < length L \<Longrightarrow> L ! a ! p = 0"
    and diag: "\<And>a. a < length L \<Longrightarrow> L ! a ! a \<noteq> 0" and i: "i < length L"
  shows "(\<Sum>p<length L. L ! p ! i * back_sub L y ! p) = y ! i"
proof -
  let ?x = "back_sub L y"
  have "(\<Sum>p<length L. L ! p ! i * ?x ! p) = (\<Sum>p\<in>{i..<length L}. L ! p ! i * ?x ! p)"
    using low i by (intro sum.mono_neutral_right) auto
  also have "\<dots> = L ! i ! i * ?x ! i + (\<Sum>p\<in>{Suc i..<length L}. L ! p ! i * ?x ! p)"
    using i by (simp add: sum.atLeast_Suc_lessThan)
  also have "\<dots> = y ! i" using back_sub_nth [OF i, of y] diag [OF i] by simp
  finally show ?thesis .
qed

text \<open>
  On a symmetric positive definite \<open>M\<close> the pivot \<open>d\<close> of every row is positive: it is the
  quadratic form of \<open>M\<close> at the vector \<open>(x, 1, 0, \<dots>)\<close>, where \<open>L\<^sub>n\<^sup>T x = -l\<close> for the
  rows \<open>L\<^sub>n\<close> built so far and the new entries \<open>l\<close>.
\<close>

lemma chol_row_entries_eq:
  assumes inv: "chol_inv k M Ls" and n: "length Ls = n" "n \<le> k" and j: "j < n"
  shows "(\<Sum>p<n. chol_row_entries M Ls n ! p * Ls ! j ! p) = M ! n ! j"
proof -
  let ?l = "chol_row_entries M Ls n"
  have jj: "0 < Ls ! j ! j" and z: "\<And>p. j < p \<Longrightarrow> p < k \<Longrightarrow> Ls ! j ! p = 0"
    using inv j n by (simp_all add: chol_inv_def)
  have "(\<Sum>p<n. ?l ! p * Ls ! j ! p) = (\<Sum>p<Suc j. ?l ! p * Ls ! j ! p)"
    using j n z by (intro sum.mono_neutral_right) auto
  also have "\<dots> = (\<Sum>p<j. ?l ! p * Ls ! j ! p) + ?l ! j * Ls ! j ! j" by simp
  also have "?l ! j = (M ! n ! j - (\<Sum>p<j. ?l ! p * Ls ! j ! p)) / Ls ! j ! j"
    using j by (rule chol_row_entries_nth)
  finally show ?thesis using jj by simp
qed

lemma chol_row_pd:
  assumes inv: "chol_inv (length M) M Ls" and n: "length Ls = n" "n < length M"
    and sym: "sym_mat M" and pd: "pd_mat M"
  shows "\<exists>row. chol_row (length M) M Ls n = Inr row"
proof -
  let ?k = "length M"
  define l where "l = chol_row_entries M Ls n"
  define d where "d = M ! n ! n - sum_list (map (\<lambda>x. x\<^sup>2) l)"
  have ll: "length l = n" by (simp add: l_def chol_row_entries_def)
  define x where "x = back_sub Ls (map uminus l)"
  have low: "\<And>a p. a < length Ls \<Longrightarrow> a < p \<Longrightarrow> p < length Ls \<Longrightarrow> Ls ! a ! p = 0"
    and diag: "\<And>a. a < length Ls \<Longrightarrow> Ls ! a ! a \<noteq> 0"
    using inv n by (auto simp: chol_inv_def)
  have xs: "(\<Sum>a<n. Ls ! a ! p * x ! a) = - l ! p" if "p < n" for p
    using back_sub_solves [OF low diag, of p "map uminus l"] that n ll by (simp add: x_def)
  define z where "z = (\<lambda>i. if i < n then x ! i else if i = n then 1 else (0::real))"
  define R where "R = (\<lambda>a p. if a < n then Ls ! a ! p else l ! p)"
  have row_n: "(\<Sum>p<n. l ! p * Ls ! j ! p) = M ! n ! j" if "j < n" for j
    using chol_row_entries_eq [OF inv n(1) _ that] n by (simp add: l_def)
  have "(\<Sum>i<?k. \<Sum>j<?k. z i * M ! i ! j * z j) = (\<Sum>i<Suc n. \<Sum>j<?k. z i * M ! i ! j * z j)"
    using n by (intro sum.mono_neutral_right) (auto simp: z_def)
  also have "\<dots> = (\<Sum>i<Suc n. \<Sum>j<Suc n. z i * M ! i ! j * z j)"
    using n by (intro sum.cong [OF refl] sum.mono_neutral_right) (auto simp: z_def)
  also have "\<dots> = d"
  proof (rule quad_gram_plus [where R = R])
    fix a b assume a: "a < Suc n" and b: "b < Suc n"
    show "M ! a ! b = (\<Sum>p<n. R a p * R b p) + (if a = n \<and> b = n then d else 0)"
    proof (cases "a < n")
      case an: True
      show ?thesis
      proof (cases "b < n")
        case True
        then show ?thesis using chol_inv_product [OF inv _ sym, of a b] an n by (simp add: R_def)
      next
        case False
        with b have "b = n" by simp
        then show ?thesis using row_n [OF an] sym an n
          by (simp add: R_def sym_mat_def mult.commute)
      qed
    next
      case False
      with a have an: "a = n" by simp
      show ?thesis
      proof (cases "b < n")
        case True
        then show ?thesis using row_n [OF True] an by (simp add: R_def)
      next
        case False
        with b have "b = n" by simp
        moreover have "(\<Sum>p<n. l ! p * l ! p) = sum_list (map (\<lambda>x. x\<^sup>2) l)"
          using ll by (simp add: sum_list_sum_nth atLeast0LessThan power2_eq_square)
        ultimately show ?thesis using an by (simp add: R_def d_def)
      qed
    qed
  next
    fix p assume p: "p < n"
    have "(\<Sum>a<n. z a * R a p) = (\<Sum>a<n. Ls ! a ! p * x ! a)"
      by (intro sum.cong) (simp_all add: z_def R_def)
    then show "(\<Sum>a<Suc n. z a * R a p) = 0" using xs [OF p] by (simp add: z_def R_def)
  qed (simp add: z_def)
  finally have q: "(\<Sum>i<?k. \<Sum>j<?k. z i * M ! i ! j * z j) = d" .
  have "\<exists>i<?k. z i \<noteq> 0" using n by (intro exI [of _ n]) (simp add: z_def)
  with pd have "0 < (\<Sum>i<?k. \<Sum>j<?k. z i * M ! i ! j * z j)" unfolding pd_mat_def by blast
  with q have "0 < d" by simp
  then show ?thesis by (simp add: chol_row_def l_def d_def Let_def)
qed

lemma cholesky_pd:
  assumes sq: "\<forall>r\<in>set M. length r = length M" and sym: "sym_mat M" and pd: "pd_mat M"
  shows "\<exists>L. cholesky M = Inr L"
proof -
  let ?k = "length M"
  have "\<exists>Ls. foldl (chol_step ?k M) (Inr []) [0..<n] = Inr Ls" if "n \<le> ?k" for n
    using that
  proof (induction n)
    case 0
    then show ?case by simp
  next
    case (Suc n)
    then obtain Ls where f: "foldl (chol_step ?k M) (Inr []) [0..<n] = Inr Ls" by auto
    have "length Ls = n \<and> chol_inv ?k M Ls" using chol_fold [OF _ f] Suc.prems by simp
    then obtain row where r: "chol_row ?k M Ls n = Inr row"
      using chol_row_pd [OF _ _ _ sym pd] Suc.prems by fastforce
    have "foldl (chol_step ?k M) (Inr []) [0..<Suc n] = chol_step ?k M (Inr Ls) n" using f by simp
    also have "\<dots> = Inr (Ls @ [row])" using r by (simp add: chol_step_def)
    finally show ?case by blast
  qed
  from this [OF order_refl] show ?thesis using sq by (simp add: cholesky_def list_all_iff Let_def)
qed

text \<open>
  Conversely a matrix that factors is positive definite: \<open>x\<^sup>T M x = |L\<^sup>T x|\<^sup>2\<close>, and the
  entry of \<open>L\<^sup>T x\<close> at the last index \<open>m\<close> where \<open>x\<close> is not zero is \<open>x m L[m, m] \<noteq> 0\<close>.
\<close>

lemma cholesky_pd_mat:
  assumes ch: "cholesky M = Inr L" and sym: "sym_mat M"
  shows "pd_mat M"
  unfolding pd_mat_def
proof (intro allI impI)
  fix x :: "nat \<Rightarrow> real" assume nz: "\<exists>i<length M. x i \<noteq> 0"
  let ?k = "length M"
  have lL: "length L = ?k" using cholesky_Inr(1) [OF ch] .
  note low = chol_lower [OF ch]
  define y where "y = (\<lambda>p. \<Sum>a<?k. x a * L ! a ! p)"
  have "(\<Sum>i<?k. \<Sum>j<?k. x i * M ! i ! j * x j) = (\<Sum>i<?k. \<Sum>j<?k. \<Sum>p<?k. x i * L ! i ! p * (x j * L ! j ! p))"
    using cholesky_product [OF ch sym, THEN HOL.sym]
    by (intro sum.cong [OF refl]) (simp add: sum_distrib_left sum_distrib_right mult_ac)
  also have "\<dots> = (\<Sum>p<?k. y p * y p)" unfolding y_def by (rule sum_gram)
  finally have q: "(\<Sum>i<?k. \<Sum>j<?k. x i * M ! i ! j * x j) = (\<Sum>p<?k. y p * y p)" .
  define m where "m = Max {i. i < ?k \<and> x i \<noteq> 0}"
  have fin: "finite {i. i < ?k \<and> x i \<noteq> 0}" by simp
  have "m \<in> {i. i < ?k \<and> x i \<noteq> 0}" unfolding m_def using nz fin by (intro Max_in) auto
  then have m: "m < ?k" "x m \<noteq> 0" by simp_all
  have above: "x a = 0" if "m < a" "a < ?k" for a
  proof (rule ccontr)
    assume "x a \<noteq> 0"
    with that(2) have "a \<le> m" unfolding m_def using fin by (intro Max_ge) auto
    with that(1) show False by simp
  qed
  have "y m = (\<Sum>a\<in>{m}. x a * L ! a ! m)"
    unfolding y_def using m above low(1) lL
    by (intro sum.mono_neutral_right) (auto simp: linorder_neq_iff)
  then have "y m \<noteq> 0" using m low(2) lL by simp
  then have "0 < (\<Sum>p<?k. y p * y p)"
    using m by (intro sum_pos2 [of _ m]) (auto simp: zero_less_mult_iff)
  with q show "0 < (\<Sum>i<?k. \<Sum>j<?k. x i * M ! i ! j * x j)" by simp
qed

text \<open>The factorisation fails only with \<open>NotPositiveDefinite\<close> once the shape is checked.\<close>

lemma chol_fold_result:
  assumes "r = Inl NotPositiveDefinite \<or> (\<exists>Ls. r = Inr Ls)"
  shows "foldl (chol_step k M) r xs = Inl NotPositiveDefinite \<or> (\<exists>Ls. foldl (chol_step k M) r xs = Inr Ls)"
  using assms
proof (induction xs arbitrary: r)
  case Nil
  then show ?case by simp
next
  case (Cons i xs)
  have "chol_step k M r i = Inl NotPositiveDefinite \<or> (\<exists>Ls. chol_step k M r i = Inr Ls)"
    using Cons.prems
    by (auto simp: chol_step_def chol_row_def Let_def split: sum.splits if_splits)
  then show ?case using Cons.IH by simp
qed

subsection \<open>The solve\<close>

text \<open>\<open>L L\<^sup>T x = b\<close> from the two triangular systems, over index functions.\<close>

lemma llt_solve:
  fixes L M :: "nat \<Rightarrow> nat \<Rightarrow> real"
  assumes prod: "\<And>a e. a < k \<Longrightarrow> e < k \<Longrightarrow> (\<Sum>p<k. L a p * L e p) = M a e"
    and bs: "\<And>p. p < k \<Longrightarrow> (\<Sum>e<k. L e p * x e) = y p"
    and fwd: "(\<Sum>p<k. L i p * y p) = b"
    and i: "i < k"
  shows "(\<Sum>e<k. M i e * x e) = b"
proof -
  have "(\<Sum>e<k. M i e * x e) = (\<Sum>e<k. (\<Sum>p<k. L i p * L e p) * x e)"
    using prod i by simp
  also have "\<dots> = (\<Sum>e<k. \<Sum>p<k. L i p * (L e p * x e))"
    by (simp add: sum_distrib_left sum_distrib_right mult_ac)
  also have "\<dots> = (\<Sum>p<k. \<Sum>e<k. L i p * (L e p * x e))"
    by (rule sum.swap)
  also have "\<dots> = (\<Sum>p<k. L i p * (\<Sum>e<k. L e p * x e))"
    by (simp add: sum_distrib_left)
  also have "\<dots> = (\<Sum>p<k. L i p * y p)" using bs by simp
  finally show ?thesis using fwd by simp
qed

lemma chol_potrs_Inr:
  assumes "chol_potrs M B = Inr R"
  obtains L where "length B = length M" "\<forall>r\<in>set B. length r = ncols B"
    "cholesky M = Inr L" "R = potrs B L" "\<forall>r\<in>set M. length r = length M"
proof -
  have "length B = length M" "\<forall>r\<in>set B. length r = ncols B"
    using assms by (auto simp: chol_potrs_def list_all_iff split: if_splits)
  moreover obtain L where "cholesky M = Inr L" "R = potrs B L"
    using assms by (cases "cholesky M") (auto simp: chol_potrs_def split: if_splits)
  moreover have "\<forall>r\<in>set M. length r = length M" using \<open>cholesky M = Inr L\<close> by (rule cholesky_square)
  ultimately show thesis by (rule that)
qed

lemma potrs_nth:
  assumes "e < length L" "j < ncols B"
  shows "potrs B L ! e ! j = back_sub L (fwd_sub L (col B j)) ! e"
  using assms by (simp add: potrs_def nth_mat_T nth_col)

subsection \<open>The solver contract\<close>

text \<open>The composed solve meets the contract of \<open>woodbury_factor\<close>'s parameter.\<close>

lemma chol_potrs_solver_correct: "solver_correct chol_potrs"
  unfolding solver_correct_def
proof (intro allI impI)
  fix M B R assume sym: "sym_mat M" and r: "chol_potrs M B = Inr R"
  obtain L where lB: "length B = length M" and rows: "\<forall>r\<in>set B. length r = ncols B"
    and ch: "cholesky M = Inr L" and R: "R = potrs B L" and Mrows: "\<forall>r\<in>set M. length r = length M"
    using r by (rule chol_potrs_Inr)
  let ?k = "length M"
  have lL: "length L = ?k" using cholesky_Inr(1) [OF ch] .
  note low = chol_lower [OF ch]
  have lR: "length R = ?k" using lL by (simp add: R potrs_def)
  have Rrows: "\<forall>r\<in>set R. length r = ncols B"
    by (auto simp: R potrs_def mat_T_def col_def)
  have entry: "mat_mul M R (ncols B) ! i ! j = B ! i ! j" if i: "i < ?k" and j: "j < ncols B" for i j
  proof -
    let ?b = "col B j"
    let ?y = "fwd_sub L ?b"
    let ?x = "back_sub L ?y"
    have lMi: "length (M ! i) = ?k" using Mrows i by simp
    have "mat_mul M R (ncols B) ! i ! j = (\<Sum>e<?k. M ! i ! e * R ! e ! j)"
      using i j lR lMi by (simp add: nth_mat_mul dot_sum nth_col)
    also have "\<dots> = (\<Sum>e<?k. M ! i ! e * ?x ! e)"
      using lL j by (intro sum.cong) (simp_all add: R potrs_nth)
    also have "\<dots> = ?b ! i"
    proof (rule llt_solve [where L = "\<lambda>a p. L ! a ! p" and M = "\<lambda>a e. M ! a ! e" and y = "\<lambda>p. ?y ! p"])
      show "(\<Sum>p<?k. L ! a ! p * L ! e ! p) = M ! a ! e" if "a < ?k" "e < ?k" for a e
        using cholesky_product [OF ch sym that] .
      show "(\<Sum>e<?k. L ! e ! p * ?x ! e) = ?y ! p" if "p < ?k" for p
        using back_sub_solves [OF low, of p ?y] that lL by simp
      show "(\<Sum>p<?k. L ! i ! p * ?y ! p) = ?b ! i"
        using fwd_sub_solves [OF low, of i ?b] i lL by simp
    qed (rule i)
    also have "\<dots> = B ! i ! j" using i lB by (simp add: nth_col)
    finally show ?thesis .
  qed
  have "mat_mul M R (ncols B) = B"
  proof (rule nth_equalityI)
    show "length (mat_mul M R (ncols B)) = length B" using lB by simp
    fix i assume "i < length (mat_mul M R (ncols B))"
    then have i: "i < ?k" by simp
    have "length (B ! i) = ncols B" using rows i lB by simp
    then show "mat_mul M R (ncols B) ! i = B ! i"
      using i entry by (intro nth_equalityI) simp_all
  qed
  with lR Rrows show "length R = length M \<and> (\<forall>r\<in>set R. length r = ncols B) \<and>
      mat_mul M R (ncols B) = B" by simp
qed

subsection \<open>Claims\<close>

text \<open>
  C20. What \<open>torch.cholesky\<close> returns on a symmetric \<open>k \<times> k\<close> matrix \<open>M\<close> is a \<open>k \<times> k\<close>
  lower triangular matrix \<open>L\<close> with a positive diagonal and \<open>L L\<^sup>T = M\<close>.
\<close>

theorem cholesky_factor:
  assumes ch: "cholesky M = Inr L" and sym: "sym_mat M"
  shows "mat_dims (length M) (length M) L \<and>
    (\<forall>a<length M. 0 < L ! a ! a \<and> (\<forall>p. a < p \<and> p < length M \<longrightarrow> L ! a ! p = 0)) \<and>
    mat_mul L (mat_T (length M) L) (length M) = M"
proof -
  let ?k = "length M"
  have lL: "length L = ?k" and inv: "chol_inv ?k M L" using cholesky_Inr [OF ch] by simp_all
  have dims: "mat_dims ?k ?k L" using inv lL by (simp add: mat_dims_def list_all_length chol_inv_def)
  have dT: "mat_dims ?k ?k (mat_T ?k L)" using lL by (simp add: mat_dims_def list_all_length mat_T_def)
  have sq: "\<forall>r\<in>set M. length r = ?k" using ch by (rule cholesky_square)
  have "mat_mul L (mat_T ?k L) ?k = M"
  proof (rule nth_equalityI)
    show "length (mat_mul L (mat_T ?k L) ?k) = length M" using lL by simp
    fix a assume "a < length (mat_mul L (mat_T ?k L) ?k)"
    then have a: "a < ?k" using lL by simp
    show "mat_mul L (mat_T ?k L) ?k ! a = M ! a"
    proof (rule nth_equalityI)
      show "length (mat_mul L (mat_T ?k L) ?k ! a) = length (M ! a)" using a lL sq by simp
      fix b assume "b < length (mat_mul L (mat_T ?k L) ?k ! a)"
      then have b: "b < ?k" using a lL by simp
      have "mat_mul L (mat_T ?k L) ?k ! a ! b = (\<Sum>p<?k. L ! a ! p * L ! b ! p)"
        using a b lL dims by (simp add: nth_mat_mul dot_sum nth_mat_T nth_col mat_dims_row)
      then show "mat_mul L (mat_T ?k L) ?k ! a ! b = M ! a ! b"
        using cholesky_product [OF ch sym a b] by simp
    qed
  qed
  with dims inv lL show ?thesis by (simp add: chol_inv_def)
qed

lemma cholesky_example: "cholesky [[4, 2], [2, 5]] = Inr [[2, 0], [1, 2]]"
  by (simp add: cholesky_def chol_step_def chol_row_def chol_row_entries_def build_def upt_rec)

theorem cholesky_factor_witness:
  "cholesky [[4, 2], [2, 5]] = Inr [[2, 0], [1, 2]] \<and>
   mat_mul [[2, 0], [1, 2]] (mat_T 2 [[2, 0], [1, 2]]) 2 = [[4, 2], [2, 5]]"
proof -
  have "sym_mat [[4, 2], [2, 5 :: real]]" by (simp add: sym_mat_def All_less_Suc)
  from cholesky_factor [OF cholesky_example this] cholesky_example
  show ?thesis by (simp add: numeral_2_eq_2)
qed

text \<open>
  C21. Lines 117--118 on a square symmetric matrix \<open>M\<close> and a right-hand side of matching
  shape: they return a solution when \<open>M\<close> is positive definite, and \<open>torch.cholesky\<close> raises
  \<open>NotPositiveDefinite\<close> exactly when it is not.
\<close>

theorem chol_potrs_pd_iff:
  assumes sq: "\<forall>r\<in>set M. length r = length M" and sym: "sym_mat M"
    and lB: "length B = length M" and rB: "\<forall>r\<in>set B. length r = ncols B"
  shows "(pd_mat M \<longrightarrow> (\<exists>R. chol_potrs M B = Inr R)) \<and>
         (\<not> pd_mat M \<longrightarrow> chol_potrs M B = Inl NotPositiveDefinite)"
proof -
  have "cholesky M = Inl NotPositiveDefinite \<or> (\<exists>L. cholesky M = Inr L)"
    using chol_fold_result [of "Inr []"] sq by (simp add: cholesky_def list_all_iff Let_def)
  moreover have "chol_potrs M B = (case cholesky M of Inl e \<Rightarrow> Inl e | Inr L \<Rightarrow> Inr (potrs B L))"
    using lB rB by (simp add: chol_potrs_def list_all_iff)
  ultimately show ?thesis using cholesky_pd [OF sq sym] cholesky_pd_mat [OF _ sym] by auto
qed

theorem chol_potrs_pd_iff_witness:
  "pd_mat [[4, 2], [2, 5]] \<and> \<not> pd_mat [[1, 2], [2, 1]]"
proof -
  have "chol_potrs [[1, 2], [2, 1]] [[1], [1]] = Inl NotPositiveDefinite"
    by (simp add: chol_potrs_def ncols_def cholesky_def chol_step_def chol_row_def
        chol_row_entries_def build_def upt_rec)
  moreover have "chol_potrs [[4, 2], [2, 5]] [[4], [7]] = Inr [[3 / 8], [5 / 4]]"
    by (simp add: chol_potrs_def cholesky_def chol_step_def chol_row_def chol_row_entries_def
        build_def potrs_def fwd_sub_def back_sub_def mat_T_def col_def ncols_def upt_rec)
  moreover have "sym_mat [[1, 2], [2, 1 :: real]]" "sym_mat [[4, 2], [2, 5 :: real]]"
    by (simp_all add: sym_mat_def All_less_Suc)
  ultimately show ?thesis
    using chol_potrs_pd_iff [of "[[1, 2], [2, 1]]" "[[1], [1]]"]
      chol_potrs_pd_iff [of "[[4, 2], [2, 5]]" "[[4], [7]]"]
    by (auto simp: ncols_def)
qed

end
