(* ===== verification/Woodbury_Cholesky.thy ===== *)
theory Woodbury_Cholesky
  imports Woodbury_Batch Cholesky_Solve
begin

text \<open>
  \<open>woodbury_factor\<close> and \<open>woodbury_solve\<close> composed with the Cholesky solve of lines
  117--118. With a positive shift the matrix \<open>V diag(inv_shift) V\<^sup>T + I / scale\<close> of lines
  106--109 is positive definite, so \<open>torch.cholesky\<close> does not raise, and the factor it
  gives makes \<open>woodbury_solve\<close> return the solution of \<open>(diag(shift) + V\<^sup>T V) x = b\<close>; the
  same holds element by element for batches with the batch-wide scale.
\<close>

subsection \<open>The matrix of lines 106--109 is positive definite\<close>

text \<open>A normalised reciprocal of a positive shift is positive.\<close>

lemma recip_pos:
  fixes a s d :: real
  assumes "0 < a" "a * s * d = 1" "0 < s"
  shows "0 < d"
proof -
  have as: "0 < a * s" using assms(1,3) by simp
  have "0 < a * s * d" using assms(2) by simp
  then show ?thesis using as by (simp add: zero_less_mult_iff)
qed

lemma shift_scale_pos:
  assumes ss: "shift_scale shift = Inr (a, d)" and pos: "\<forall>s\<in>set shift. 0 < s" and j: "j < length shift"
  shows "0 < d ! j"
proof -
  have "0 < a" "a * shift ! j * d ! j = 1" using shift_scale_Inr [OF ss] j by simp_all
  moreover have "0 < shift ! j" using pos j by simp
  ultimately show ?thesis by (rule recip_pos)
qed

lemma shift_scale_exists:
  assumes "shift \<noteq> []" and "\<forall>s\<in>set shift. 0 < s"
  shows "\<exists>a d. shift_scale shift = Inr (a, d)"
proof -
  have "list_all (\<lambda>x. x \<noteq> 0) shift" using assms(2) by (auto simp: list_all_iff)
  moreover obtain v j where "torch_max (map abs (map (\<lambda>x. 1 / x) shift)) = Some (v, j)"
    using assms(1) by (cases "torch_max (map abs (map (\<lambda>x. 1 / (x::real)) shift))") auto
  ultimately show ?thesis by (simp add: shift_scale_def)
qed

text \<open>\<open>x\<^sup>T (V D V\<^sup>T + I / a) x = \<Sum>j. d j (V\<^sup>T x)\<^sub>j\<^sup>2 + |x|\<^sup>2 / a\<close>.\<close>

lemma shifted_mat_quad:
  assumes V: "mat_dims k n V" and ld: "length d = n"
  shows "(\<Sum>c<k. \<Sum>e<k. x c * shifted_mat V d a ! c ! e * x e) =
         (\<Sum>j<n. d ! j * ((\<Sum>c<k. x c * V ! c ! j) * (\<Sum>c<k. x c * V ! c ! j))) + (\<Sum>c<k. x c * x c / a)"
proof -
  have entry: "x c * shifted_mat V d a ! c ! e * x e =
      (\<Sum>j<n. (x c * V ! c ! j * d ! j) * (x e * V ! e ! j)) + (if c = e then x c * x c / a else 0)"
    if "c < k" "e < k" for c e
    using shifted_mat_nth [OF V ld that]
    by (simp add: sum_distrib_left sum_distrib_right distrib_left distrib_right mult_ac)
  have "(\<Sum>c<k. \<Sum>e<k. x c * shifted_mat V d a ! c ! e * x e) =
        (\<Sum>c<k. \<Sum>e<k. (\<Sum>j<n. (x c * V ! c ! j * d ! j) * (x e * V ! e ! j)) +
           (if c = e then x c * x c / a else 0))"
    by (rule sum.cong [OF refl], rule sum.cong [OF refl], simp add: entry)
  also have "\<dots> = (\<Sum>c<k. \<Sum>e<k. \<Sum>j<n. (x c * V ! c ! j * d ! j) * (x e * V ! e ! j)) +
      (\<Sum>c<k. x c * x c / a)"
    by (simp add: sum.distrib sum.delta)
  also have "(\<Sum>c<k. \<Sum>e<k. \<Sum>j<n. (x c * V ! c ! j * d ! j) * (x e * V ! e ! j)) =
      (\<Sum>j<n. (\<Sum>c<k. x c * V ! c ! j * d ! j) * (\<Sum>e<k. x e * V ! e ! j))"
    by (rule sum_gram)
  also have "\<dots> = (\<Sum>j<n. d ! j * ((\<Sum>c<k. x c * V ! c ! j) * (\<Sum>c<k. x c * V ! c ! j)))"
  proof -
    have "(\<Sum>c<k. x c * V ! c ! j * d ! j) = d ! j * (\<Sum>c<k. x c * V ! c ! j)" for j
      by (simp add: sum_distrib_left mult_ac)
    then show ?thesis by (simp only: mult.assoc)
  qed
  finally show ?thesis .
qed

lemma shifted_mat_pd:
  assumes V: "mat_dims k n V" and ld: "length d = n" and a: "0 < a" and dpos: "\<forall>j<n. 0 < d ! j"
  shows "pd_mat (shifted_mat V d a)"
proof -
  have lM: "length (shifted_mat V d a) = k"
    using length_shifted_mat [OF V ld] by (simp add: mat_dims_def)
  show ?thesis
    unfolding pd_mat_def lM shifted_mat_quad [OF V ld]
  proof (intro allI impI)
    fix x :: "nat \<Rightarrow> real" assume "\<exists>i<k. x i \<noteq> 0"
    then obtain i where i: "i < k" "x i \<noteq> 0" by blast
    have "0 \<le> (\<Sum>j<n. d ! j * ((\<Sum>c<k. x c * V ! c ! j) * (\<Sum>c<k. x c * V ! c ! j)))"
    proof (rule sum_nonneg)
      fix j assume "j \<in> {..<n}"
      then have "0 \<le> d ! j" using dpos by (simp add: less_imp_le)
      then show "0 \<le> d ! j * ((\<Sum>c<k. x c * V ! c ! j) * (\<Sum>c<k. x c * V ! c ! j))" by simp
    qed
    moreover have "0 < (\<Sum>c<k. x c * x c / a)"
    proof (rule sum_pos2 [of _ i])
      have "0 < (x i)\<^sup>2" using i(2) by simp
      then show "0 < x i * x i / a" using a by (simp add: power2_eq_square)
      show "0 \<le> x c * x c / a" for c using a by simp
    qed (simp_all add: i)
    ultimately show "0 < (\<Sum>j<n. d ! j * ((\<Sum>c<k. x c * V ! c ! j) * (\<Sum>c<k. x c * V ! c ! j)))
        + (\<Sum>c<k. x c * x c / a)" by simp
  qed
qed

subsection \<open>The factor exists\<close>

lemma mat_dims_ncols:
  "mat_dims k n V \<Longrightarrow> list_all (\<lambda>r. length r = ncols V) V"
  by (cases V) (simp_all add: mat_dims_def ncols_def)

lemma chol_potrs_shifted_Inr:
  assumes V: "mat_dims k n V" and ld: "length d = n" and a: "0 < a" and dpos: "\<forall>j<n. 0 < d ! j"
  shows "\<exists>R. chol_potrs (shifted_mat V d a) V = Inr R"
proof -
  let ?M = "shifted_mat V d a"
  have dims: "mat_dims k k ?M" by (rule length_shifted_mat [OF V ld])
  have sq: "\<forall>r\<in>set ?M. length r = length ?M" using dims by (simp add: mat_dims_def list_all_iff)
  obtain L where "cholesky ?M = Inr L"
    using cholesky_pd [OF sq sym_shifted_mat [OF V ld] shifted_mat_pd [OF V ld a dpos]] by blast
  moreover have "length V = length ?M" using dims V by (simp add: mat_dims_def)
  ultimately show ?thesis using mat_dims_ncols [OF V] by (simp add: chol_potrs_def)
qed

lemma woodbury_factor_chol_Inr:
  assumes V: "mat_dims k n V" and n: "length shift = n" and ne: "shift \<noteq> []"
    and pos: "\<forall>s\<in>set shift. 0 < s"
  shows "\<exists>R. woodbury_factor chol_potrs V shift = Inr R"
proof -
  obtain a d where ss: "shift_scale shift = Inr (a, d)" using shift_scale_exists [OF ne pos] by blast
  have a: "0 < a" and ld: "length d = n" using shift_scale_Inr [OF ss] n by simp_all
  have dpos: "\<forall>j<n. 0 < d ! j" using shift_scale_pos [OF ss pos] n by simp
  then show ?thesis using chol_potrs_shifted_Inr [OF V ld a dpos] ss by (simp add: woodbury_factor_def)
qed

subsection \<open>Batches\<close>

lemma all_Inr_total: "\<forall>r\<in>set rs. \<exists>x. r = Inr x \<Longrightarrow> \<exists>xs. all_Inr rs = Inr xs"
  by (induction rs rule: all_Inr.induct) auto

lemma batch_shift_scale_exists:
  assumes ne: "concat shifts \<noteq> []" and pos: "\<forall>sh\<in>set shifts. \<forall>s\<in>set sh. 0 < s"
  shows "\<exists>a ds. batch_shift_scale shifts = Inr (a, ds)"
proof -
  have "list_all (list_all (\<lambda>x. x \<noteq> 0)) shifts" using pos by (auto simp: list_all_iff)
  moreover obtain v j where "torch_max (map abs (concat (map (map (\<lambda>x. 1 / x)) shifts))) = Some (v, j)"
    using ne by (cases "torch_max (map abs (concat (map (map (\<lambda>x. 1 / (x::real))) shifts)))") auto
  ultimately show ?thesis by (simp add: batch_shift_scale_def)
qed

lemma woodbury_factor_batch_chol_Inr:
  assumes lV: "length Vs = length shifts" and ne: "concat shifts \<noteq> []"
    and dims: "\<forall>i<length shifts. mat_dims k n (Vs ! i) \<and> length (shifts ! i) = n"
    and pos: "\<forall>sh\<in>set shifts. \<forall>s\<in>set sh. 0 < s"
  shows "\<exists>Rs. woodbury_factor_batch chol_potrs Vs shifts = Inr Rs"
proof -
  obtain a ds where ss: "batch_shift_scale shifts = Inr (a, ds)"
    using batch_shift_scale_exists [OF ne pos] by blast
  note bs = batch_shift_scale_Inr [OF ss]
  have elem: "\<exists>R. chol_potrs (shifted_mat (Vs ! i) (ds ! i) a) (Vs ! i) = Inr R"
    if i: "i < length shifts" for i
  proof (rule chol_potrs_shifted_Inr)
    show V: "mat_dims k n (Vs ! i)" and "length (ds ! i) = n" using dims bs(3) i by simp_all
    show "0 < a" by (rule bs(1))
    show "\<forall>j<n. 0 < ds ! i ! j"
    proof (intro allI impI)
      fix j assume j: "j < n"
      then have j': "j < length (shifts ! i)" using dims i by simp
      have "0 < shifts ! i ! j" using pos nth_mem [OF i] nth_mem [OF j'] by blast
      with bs(1) bs(4) [OF i j'] show "0 < ds ! i ! j" by (rule recip_pos)
    qed
  qed
  have "\<forall>r\<in>set (map2 (\<lambda>V d. chol_potrs (shifted_mat V d a) V) Vs ds). \<exists>x. r = Inr x"
    using elem lV bs(2) by (auto simp: set_zip)
  then obtain Rs where "all_Inr (map2 (\<lambda>V d. chol_potrs (shifted_mat V d a) V) Vs ds) = Inr Rs"
    by (blast dest: all_Inr_total)
  then show ?thesis using lV ss by (simp add: woodbury_factor_batch_def)
qed

subsection \<open>Claims\<close>

text \<open>
  C22. End to end with the Cholesky solve: for a \<open>k \<times> n\<close> matrix \<open>V\<close> and a non-empty
  positive shift of length \<open>n\<close>, \<open>woodbury_factor\<close> returns a factor (\<open>torch.cholesky\<close> does not
  raise), and \<open>woodbury_solve\<close> with it returns, for every right-hand side \<open>b\<close> of length
  \<open>n\<close>, the solution of \<open>(diag(shift) + V\<^sup>T V) x = b\<close>.
\<close>

theorem woodbury_cholesky_correct:
  assumes V: "mat_dims k n V" and n: "length shift = n" and ne: "shift \<noteq> []"
    and pos: "\<forall>s\<in>set shift. 0 < s" and b: "length b = n"
  shows "\<exists>R x. woodbury_factor chol_potrs V shift = Inr R \<and> woodbury_solve b V R shift = Inr x \<and>
    woodbury_system V shift x = b"
proof -
  obtain R where f: "woodbury_factor chol_potrs V shift = Inr R"
    using woodbury_factor_chol_Inr [OF V n ne pos] by blast
  with woodbury_factor_then_solve [OF chol_potrs_solver_correct f V n b] show ?thesis by blast
qed

theorem woodbury_cholesky_correct_witness:
  "\<exists>R x. woodbury_factor chol_potrs [[1, 0, 0], [0, 1, 0]] [1, 2, 3] = Inr R \<and>
     woodbury_solve [2, 2, 1] [[1, 0, 0], [0, 1, 0]] R [1, 2, 3] = Inr x \<and>
     woodbury_system [[1, 0, 0], [0, 1, 0]] [1, 2, 3] x = [2, 2, 1]"
  by (rule woodbury_cholesky_correct [of 2 3]) (simp_all add: mat_dims_def)

text \<open>
  C23. Batched end to end: for batches of \<open>k \<times> n\<close> matrices, positive shifts of length
  \<open>n\<close> (not all empty) and right-hand sides of length \<open>n\<close>, \<open>woodbury_factor\<close> with the
  Cholesky solve returns a factor for every element, and the batched \<open>woodbury_solve\<close>
  returns for every element the solution of its system, although the scale is shared.
\<close>

theorem woodbury_batch_cholesky_correct:
  assumes lV: "length Vs = length shifts" and lb: "length bs = length shifts"
    and ne: "concat shifts \<noteq> []"
    and dims: "\<forall>i<length shifts. mat_dims k n (Vs ! i) \<and> length (shifts ! i) = n \<and> length (bs ! i) = n"
    and pos: "\<forall>sh\<in>set shifts. \<forall>s\<in>set sh. 0 < s"
  shows "\<exists>Rs xs. woodbury_factor_batch chol_potrs Vs shifts = Inr Rs \<and>
    woodbury_solve_batch bs Vs Rs shifts = Inr xs \<and>
    (\<forall>i<length shifts. woodbury_system (Vs ! i) (shifts ! i) (xs ! i) = bs ! i)"
proof -
  have "\<forall>i<length shifts. mat_dims k n (Vs ! i) \<and> length (shifts ! i) = n" using dims by simp
  then obtain Rs where f: "woodbury_factor_batch chol_potrs Vs shifts = Inr Rs"
    using woodbury_factor_batch_chol_Inr [OF lV ne _ pos] by blast
  with woodbury_batch_solves [OF chol_potrs_solver_correct f dims lb] show ?thesis by blast
qed

theorem woodbury_batch_cholesky_correct_witness:
  "\<exists>Rs xs. woodbury_factor_batch chol_potrs [[[1, 0, 0], [0, 1, 0]], [[1, 0, 0], [0, 1, 0]]]
       [[1, 1, 1], [2, 2, 2]] = Inr Rs \<and>
     woodbury_solve_batch [[2, 2, 1], [3, 3, 2]] [[[1, 0, 0], [0, 1, 0]], [[1, 0, 0], [0, 1, 0]]] Rs
       [[1, 1, 1], [2, 2, 2]] = Inr xs \<and>
     (\<forall>i<length [[1, 1, 1], [2, 2, 2 :: real]].
        woodbury_system ([[[1, 0, 0], [0, 1, 0]], [[1, 0, 0], [0, 1, 0]]] ! i) ([[1, 1, 1], [2, 2, 2]] ! i) (xs ! i)
        = [[2, 2, 1], [3, 3, 2]] ! i)"
  by (rule woodbury_batch_cholesky_correct [of _ _ _ 2 3])
    (simp_all add: mat_dims_def All_less_Suc numeral_2_eq_2)

end
