(* ===== verification/Woodbury_Factor_Run.thy ===== *)
theory Woodbury_Factor_Run
  imports Woodbury_Cholesky
begin

text \<open>
  \<open>woodbury_factor\<close> as a whole (lines 85--120), with what \<open>Woodbury\<close> leaves out of its
  return value: the branch on the precision of \<open>low_rank_mat\<close> (line 112) and the debug
  \<open>print\<close> of line 119 on the other branch. What the function writes to standard output is
  a list of lines; a line reports \<open>R.shape\<close> and the Frobenius norm
  \<open>(shifted_mat @ R - low_rank_mat).norm()\<close>. In exact arithmetic the casts \<open>.float()\<close>
  and \<open>.type_as\<close> of lines 113--115 are the identity.
\<close>

datatype dtype = Float16 | Float32 | Float64

datatype factor_output = FactorLine "nat list" real

definition mat_sub :: "mat \<Rightarrow> mat \<Rightarrow> mat" where
  "mat_sub A B = map2 (map2 (-)) A B"

text \<open>\<open>Tensor.norm()\<close> with its defaults: the square root of the sum of squared entries.\<close>

definition frob_norm :: "mat \<Rightarrow> real" where
  "frob_norm A = sqrt (sum_list (map (\<lambda>r. sum_list (map (\<lambda>x. x\<^sup>2) r)) A))"

definition woodbury_factor_run ::
  "dtype \<Rightarrow> (mat \<Rightarrow> mat \<Rightarrow> num_error + mat) \<Rightarrow> mat \<Rightarrow> vec \<Rightarrow> factor_output list \<times> (num_error + mat)"
  where
  "woodbury_factor_run dt chol_solve low_rank_mat shift =
    (case shift_scale shift of
       Inl e \<Rightarrow> ([], Inl e)
     | Inr (scale, inv_shift) \<Rightarrow>
        (let shifted = shifted_mat low_rank_mat inv_shift scale
         in if dt = Float16 then ([], chol_solve shifted low_rank_mat)
            else (case chol_solve shifted low_rank_mat of
                    Inl e \<Rightarrow> ([], Inl e)
                  | Inr R \<Rightarrow>
                      ([FactorLine [length R, ncols R]
                          (frob_norm (mat_sub (mat_mul shifted R (ncols R)) low_rank_mat))], Inr R))))"

subsection \<open>Lemmas\<close>

lemma mat_sub_self: "mat_sub A A = map (map (\<lambda>x. 0)) A"
  by (induction A) (simp_all add: mat_sub_def zip_same_conv_map case_prod_beta)

lemma frob_norm_zeros [simp]: "frob_norm (map (map (\<lambda>x. 0)) A) = 0"
  by (induction A) (simp_all add: frob_norm_def comp_def)

lemma woodbury_factor_run_Inr:
  assumes "shift_scale shift = Inr (a, d)" "chol_solve (shifted_mat V d a) V = Inr R" "dt \<noteq> Float16"
  shows "woodbury_factor_run dt chol_solve V shift =
    ([FactorLine [length R, ncols R] (frob_norm (mat_sub (mat_mul (shifted_mat V d a) R (ncols R)) V))], Inr R)"
  using assms by (simp add: woodbury_factor_run_def)

subsection \<open>Claims\<close>

text \<open>
  C25. The debug line of line 119 with the Cholesky solve: for a \<open>k \<times> n\<close> matrix \<open>V\<close> with
  \<open>k > 0\<close> and a non-empty positive shift, the single- or double-precision path writes exactly
  one line, reporting the shape \<open>k \<times> n\<close> and a residual norm of 0, and returns the factor.
\<close>

theorem woodbury_factor_run_print:
  assumes V: "mat_dims k n V" and k: "0 < k" and n: "length shift = n" and ne: "shift \<noteq> []"
    and pos: "\<forall>s\<in>set shift. 0 < s" and dt: "dt \<noteq> Float16"
  shows "\<exists>R. woodbury_factor_run dt chol_potrs V shift = ([FactorLine [k, n] 0], Inr R)"
proof -
  obtain a d where ss: "shift_scale shift = Inr (a, d)" using shift_scale_exists [OF ne pos] by blast
  have ld: "length d = n" using shift_scale_Inr(2) [OF ss] n by simp
  obtain R where f: "woodbury_factor chol_potrs V shift = Inr R"
    using woodbury_factor_chol_Inr [OF V n ne pos] by blast
  then have cs: "chol_potrs (shifted_mat V d a) V = Inr R" using ss by (simp add: woodbury_factor_def)
  have "length (shifted_mat V d a) = k" using length_shifted_mat [OF V ld] by (simp add: mat_dims_def)
  then have R: "mat_dims k n R \<and> mat_mul (shifted_mat V d a) R n = V"
    using solver_correct_mat_mul [OF chol_potrs_solver_correct cs sym_shifted_mat [OF V ld] V] by simp
  then have "length R = k" "ncols R = n" using k by (auto simp: mat_dims_def ncols_def split: list.splits)
  with R woodbury_factor_run_Inr [where chol_solve = chol_potrs, OF ss cs dt]
  show ?thesis by (simp add: mat_sub_self)
qed

theorem woodbury_factor_run_print_witness:
  "\<exists>R. woodbury_factor_run Float32 chol_potrs [[1, 0, 0], [0, 1, 0]] [1, 2, 3] = ([FactorLine [2, 3] 0], Inr R)"
  by (rule woodbury_factor_run_print) (simp_all add: mat_dims_def)

end
