(* ===== verification/Spec2Isabelle.thy ===== *)
theory Spec2Isabelle
  imports PC_PSD PC_Properties PC_Transitions Woodbury_Batch Woodbury_Factor_Run
begin

text \<open>
  \<^bold>\<open>Pivoted Cholesky and Woodbury solves of \<open>src/gpytorch/utils/pivoted_cholesky.py\<close>.\<close>

  The source has three functions. \<open>pivoted_cholesky\<close> (lines 7--82) builds a low-rank factor
  \<open>L\<close> (\<open>max_iter \<times> n\<close> per batch element) of a symmetric matrix by greedy diagonal
  pivoting: each iteration picks the largest remaining diagonal value, writes the pivot
  row of \<open>L\<close> from one row of the matrix, and deflates the remaining diagonal; it stops when
  the largest L1 norm of the remaining diagonal over the batch is at most \<open>error_tol\<close> or
  after \<open>min(max_iter, n)\<close> iterations. \<open>woodbury_factor\<close> (lines 85--120) and
  \<open>woodbury_solve\<close> (lines 123--145) use such a factor \<open>V\<close> (\<open>k \<times> n\<close>) to solve
  \<open>(diag(shift) + V\<^sup>T V) x = b\<close> by the Woodbury identity, with a \<open>k \<times> k\<close> dense solve in
  between. The two halves interact only through the factor matrix.

  \<^bold>\<open>Theories.\<close>
  \<^item> \<open>Prelude\<close>: the shared vocabulary. \<open>vec\<close>/\<open>mat\<close> (real lists), the error type
    \<open>num_error\<close> (\<open>NonFinite\<close> for a NaN/inf result, \<open>InvalidShape\<close> and
    \<open>EmptyReduction\<close> for what torch raises, \<open>NotPositiveDefinite\<close> for
    \<open>torch.cholesky\<close>), \<open>gather\<close>/\<open>scatter\<close> (tensor indexing with an
    index list, lines 43, 73--76), \<open>torch_max\<close> (\<open>torch.max\<close> along a dimension: the value
    and the first index of the maximum, \<open>None\<close> on an empty dimension), \<open>l1_norm\<close>, and
    permutations \<open>is_perm\<close>, with their lemmas.
  \<^item> \<open>Matrix_Access\<close>: the input \<open>matrix_input\<close>: a dense tensor, or a lazy tensor given
    by its diagonal and a row function (lines 13--19, 58--61).
  \<^item> \<open>Pivoted_Cholesky\<close>: the algorithm. The per-element state \<open>pc_state\<close> holds the
    variables \<open>matrix_diag\<close>, \<open>permutation\<close>, \<open>L\<close> and \<open>errors\<close> of lines 24--30 for one batch
    element; \<open>pc_elem_step\<close> is one iteration of the loop body (lines 43--79) on one
    element, \<open>pc_batch_step\<close> runs it over the batch, \<open>pc_loop\<close> is the while loop (lines
    41--80) with its batch-wide guard, and \<open>pivoted_cholesky\<close> the whole function. The loop
    is a \<open>function\<close> terminating by the measure \<open>max_iter - m\<close>; no fuel is needed.
  \<^item> \<open>PC_Invariants\<close>: the structural invariant \<open>pc_inv\<close> (shapes, the permutation, zero
    rows not yet written, lower-triangularity in pivot order) and its preservation; the
    position-wise description of one step (\<open>pc_elem_step_facts\<close>); the generic lifting of
    a step invariant through the batch and the loop (\<open>pc_loop_preserves\<close>).
  \<^item> \<open>PC_Factor\<close>: the numerical invariant \<open>pc_factor_inv\<close>: the remaining diagonal is the
    diagonal of the Schur complement, and the rows already pivoted are reproduced exactly
    by \<open>L\<^sup>T L\<close>. From it: exactness on the pivots, and \<open>L\<^sup>T L = A\<close> after \<open>n\<close> steps.
  \<^item> \<open>PC_Properties\<close>: the pivot-order invariant \<open>pc_pivot_inv\<close>, which errors the function
    can return, the early exit, the \<open>max_iter\<close> edge cases, and the failure of a batch
    with a converged element; two concrete runs (\<open>pivoted_cholesky_batch_nan_example\<close>,
    \<open>pc_error_grows_example\<close>) show where the code differs from its specification.
  \<^item> \<open>PC_PSD\<close>: positive semi-definite inputs. \<open>schur\<close> is the residual \<open>A - L\<^sup>T L\<close>;
    the invariant \<open>pc_psd_inv\<close> says it is positive semi-definite (\<open>psd_on\<close>) on the
    unpivoted indices and that \<open>errors\<close> is the L1 norm of their diagonal. It is kept by
    every iteration (\<open>psd_on_schur_step\<close>, the one-pivot Schur complement), so on a single
    such input no iteration fails (\<open>pc_elem_step_psd_Inr\<close>, \<open>pc_loop_total\<close>) and the error
    does not grow.
  \<^item> \<open>PC_Transitions\<close>: the loop as a transition system. \<open>pc_trans\<close> (an \<open>inductive\<close>
    predicate, executable by \<open>code_pred\<close>) is one pass through the guard of line 42 and the
    body, from a configuration \<open>Inr (m, buffers)\<close> to the next one or to the error raised.
    The structural invariant holds in every configuration reachable by
    \<open>(pc_trans \<dots>)\<^sup>*\<^sup>*\<close> (rule induction); what \<open>pc_loop\<close> returns is one of them.
  \<^item> \<open>Woodbury\<close>: list matrices (\<open>dot\<close>, \<open>mat_T\<close>, \<open>mat_mul\<close>, \<open>mat_vec\<close>, \<open>eye\<close>,
    \<open>mat_add\<close>, \<open>scale_rows\<close>), the shared normalisation \<open>shift_scale\<close> (lines 103--105,
    134--136), \<open>shifted_mat\<close> (lines 106--109), \<open>woodbury_factor\<close> and \<open>woodbury_solve\<close>,
    the matrix right-hand side \<open>woodbury_solve_mat\<close> and the dispatch on the dimension of the
    right-hand side \<open>woodbury_solve_rhs\<close> (line 138), and the system \<open>woodbury_system\<close>
    they are meant to solve.
  \<^item> \<open>Woodbury_Correct\<close>: the Woodbury identity over index sums and its consequence: for any
    dense solver meeting \<open>solver_correct\<close>, factor-then-solve returns the solution of the
    shifted system (a functional refinement of \<open>woodbury_system\<close>'s inverse).
  \<^item> \<open>Woodbury_Matrix\<close>: column \<open>j\<close> of the matrix solve is the vector solve of column \<open>j\<close>
    (\<open>woodbury_solve_mat_col\<close>); a positive shift makes the system injective
    (\<open>woodbury_system_inj\<close>), so the solve is its inverse.
  \<^item> \<open>Woodbury_Batch\<close>: batches as lists of elements, with the batch-wide scale of lines 104
    and 135 (\<open>batch_shift_scale\<close>), the element-wise dense solve (\<open>all_Inr\<close>) and the
    batched \<open>woodbury_factor_batch\<close> and \<open>woodbury_solve_batch\<close>. The computation of
    lines 141--145 (\<open>woodbury_solve_core\<close>) solves the system for every positive scale
    (\<open>woodbury_core_system\<close>), which carries the single-element results to batches.
  \<^item> \<open>Cholesky_Solve\<close>: the dense solve of lines 117--118, modelled from the contract of
    the library routines. \<open>cholesky\<close> is the row-by-row Cholesky-Banachiewicz scheme
    (\<open>chol_row_entries\<close>, \<open>chol_row\<close>, \<open>chol_step\<close>, each entry built from the ones before
    it by \<open>build\<close>), with the shape check and the \<open>NotPositiveDefinite\<close> error of
    \<open>torch.cholesky\<close>; \<open>potrs\<close> is forward then back substitution (\<open>fwd_sub\<close>,
    \<open>back_sub\<close>) on every column; \<open>chol_potrs\<close> composes them with the shape checks of the
    two calls. The invariant \<open>chol_inv\<close> of the rows built so far gives \<open>L L\<^sup>T = M\<close>; the
    pivot of a new row is the quadratic form of \<open>M\<close> at a vector built by back
    substitution (\<open>chol_row_pd\<close>), so positive definiteness (\<open>pd_mat\<close>) is exactly the
    condition for success; \<open>chol_potrs\<close> meets \<open>solver_correct\<close>.
  \<^item> \<open>Woodbury_Cholesky\<close>: the composition. With a positive shift the matrix of lines
    106--109 is positive definite (\<open>shifted_mat_pd\<close>), so the factorisation does not raise
    and factor-then-solve returns the solution, for one element and for batches.
  \<^item> \<open>Woodbury_Factor_Run\<close>: the whole of lines 85--120. \<open>woodbury_factor_run\<close> takes the
    precision (\<open>dtype\<close>) and returns the lines written to standard output with the result:
    the half-precision path casts (the identity on exact values) and prints nothing, the
    other path prints \<open>R.shape\<close> and the norm of \<open>shifted_mat @ R - low_rank_mat\<close>
    (\<open>FactorLine\<close>, \<open>frob_norm\<close>, \<open>mat_sub\<close>).

  \<^bold>\<open>Modelling choices.\<close> Arithmetic is exact real arithmetic; the properties are those of
  the algorithm, not of its floating-point rounding. Where IEEE arithmetic would yield NaN
  or inf and the code continues silently (square root of a negative pivot, division by a
  zero pivot, reciprocal of a zero shift), the model returns \<open>Inl NonFinite\<close>, so that these
  paths are visible as values. A batch is a list of elements; the loop guard reads the
  maximum error over the whole batch, as the code does, and an element that fails fails the
  call. A matrix is a list of rows, and products take their column count explicitly.
  \<open>torch.cholesky\<close> with \<open>torch.potrs\<close> (lines 117--118) is a parameter \<open>chol_solve\<close> of
  \<open>woodbury_factor\<close> with the contract \<open>solver_correct\<close>: whenever it returns \<open>R\<close> on a
  symmetric \<open>M\<close> (\<open>torch.cholesky\<close> reads only the lower triangle), \<open>M R = B\<close>; the
  Woodbury results hold for every such solve, and \<open>chol_potrs\<close> is one. Definitions are
  executable except for \<open>sqrt\<close>, which has no code equation; the examples and witnesses are
  evaluated by the simplifier. \<open>psd_on\<close> and \<open>psd_input\<close> quantify over all real vectors:
  they are hypotheses on inputs, not code, and witnesses establish them by a sum of squares.

  \<^bold>\<open>Results.\<close> For a well-formed symmetric input with exact diagonal: the factor
  reproduces the input exactly on the pivoted rows and columns, and equals it after \<open>n\<close>
  steps (C1, C2). The output has the documented shape and is lower triangular under a
  permutation (C4). Pivots are chosen greedily (C7) and, in the order chosen (the
  permutation under which the factor is triangular), are non-negative and non-increasing
  (C8); the only possible failure is a non-finite value (C9). Edge cases: early exit (C10),
  \<open>max_iter \<le> 0\<close> (C11). Divergence: batch elements are not independent; once one element
  has converged exactly while another has not, the next iteration divides by a zero pivot
  and the whole call fails (C12). On a single positive semi-definite input with
  \<open>error_tol \<ge> 0\<close> the function always returns (C13) and the error never grows (C14);
  C12 shows that the first claim does not extend to batches; when it stops early, the trace
  of \<open>A - L\<^sup>T L\<close> is at most \<open>error_tol\<close> (C17). Every configuration the loop can reach
  satisfies the structural invariant (C24).
  The Woodbury solve returns the solution of \<open>(diag(shift) + V\<^sup>T V) x = b\<close> for every
  non-zero shift and every correct dense solver (C3, C5); the normalised reciprocals lie in
  \<open>[-1, 1]\<close> (C6). Every column of a matrix solve solves the shifted system (C15), and for a
  positive shift the solve returns \<open>x\<close> from \<open>(diag(shift) + V\<^sup>T V) x\<close> (C16). Batched,
  every element is solved correctly although the scale is shared (C18), and for positive
  shifts the batched solve equals the unbatched one (C19): the Woodbury half is
  batch-invariant where the Cholesky half (C12) is not. The Cholesky factor satisfies
  \<open>L L\<^sup>T = M\<close> with \<open>L\<close> lower triangular and a positive diagonal (C20), and lines 117--118
  return exactly when \<open>M\<close> is positive definite (C21); with them and a positive shift,
  factor-then-solve always returns the solution (C22), also for batches with their shared
  scale (C23). The debug line of line 119 reports the shape \<open>k \<times> n\<close> and a zero residual
  (C25), which is output the specification's "no I/O" excludes.

  A zero shift is not checked: \<open>shift_scale\<close> returns \<open>Inl NonFinite\<close> for it, standing
  for the NaN values the solve returns; the factor path in the code raises later, inside
  \<open>torch.cholesky\<close>, on the NaN matrix. \<open>woodbury_solve_batch\<close> models a batched right-hand
  side of shape \<open>(B, n, 1)\<close>; a \<open>(B, n)\<close> batch of vectors takes the matrix branch of line
  138 in the code and is mis-broadcast.

  \<^bold>\<open>Not modelled.\<close> The internals of \<open>LazyTensor\<close> (only its diagonal and row access
  are used); the termination of the loop is that of \<open>pc_loop\<close>'s \<open>function\<close> definition
  (measure \<open>max_iter - m\<close>), not a separate property; the rounding of the casts of lines 113--115 (the half-precision branch is
  modelled, its casts being the identity on exact values); the formatting of the printed
  line of line 119 (its two values are modelled, not the text); a scalar (0-d) shift, which
  broadcasts like a constant vector; autograd; and the floating-point behaviour and
  blocked LAPACK implementation of \<open>torch.cholesky\<close>/\<open>torch.potrs\<close>, which are library
  routines outside the repository, modelled only by the exact algorithms of
  \<open>Cholesky_Solve\<close>. Floating-point rounding is not modelled; every result holds for exact
  real arithmetic.
\<close>

end
